(* ===== verification/Runtime_Prelude.thy ===== *)
theory Runtime_Prelude
  imports Main "HOL-Library.AList" "HOL-Library.Char_ord" "HOL-Library.List_Lexorder"
begin

text \<open>
  Shared vocabulary of the development: how the Python constructs that every component of
  \<^verbatim>\<open>src/core/runtime\<close> uses are written in HOL.

  \<^item> A sequence of \<^verbatim>\<open>if c: raise e\<close> statements is a guard list, read by
    \<open>first_error\<close>; a \<^verbatim>\<open>for\<close> loop that may raise is \<open>first_some\<close>.
  \<^item> A \<^verbatim>\<open>dict\<close> is an association list in insertion order. \<open>AList.update\<close> is
    \<^verbatim>\<open>d[k] = v\<close> (in place for a present key, at the end for a new one), \<open>map_of\<close>
    is \<^verbatim>\<open>d.get\<close>, \<open>AList.delete\<close> is \<^verbatim>\<open>d.pop\<close>.
  \<^item> A \<^verbatim>\<open>datetime\<close> is its UTC offset (\<open>None\<close> for a naive value, otherwise
    seconds) and its instant. Aware values compare by instant, as in Python.
  \<^item> A \<^verbatim>\<open>str\<close> is a \<open>string\<close>; its characters are read as the code points below 256. Fixed
    texts of the source outside that range are carried as the bytes of their UTF-8 encoding.
  \<^item> The locales at the end are the contracts the stateful components are checked against:
    \<open>post s e\<close> is the state a component is left in after the call \<open>e\<close>, whether the
    call returned or raised.
\<close>

section \<open>Automation collections\<close>

named_theorems guard_simps \<open>rewrite rules for guard lists and raising loops\<close>
named_theorems dict_simps \<open>rewrite rules for insertion-ordered dictionaries\<close>
named_theorems runtime_inv \<open>preservation of component invariants\<close>

section \<open>Guards\<close>

primrec first_error :: "(bool \<times> 'e) list \<Rightarrow> 'e option" where
  "first_error [] = None"
| "first_error (g # gs) = (if fst g then Some (snd g) else first_error gs)"

primrec first_some :: "('a \<Rightarrow> 'e option) \<Rightarrow> 'a list \<Rightarrow> 'e option" where
  "first_some f [] = None"
| "first_some f (x # xs) = (case f x of None \<Rightarrow> first_some f xs | Some e \<Rightarrow> Some e)"

text \<open>\<open>or_raise a b\<close>: the error of the first part, or of the second if the first passes.\<close>

definition or_raise :: "'e option \<Rightarrow> 'e option \<Rightarrow> 'e option" where
  "or_raise a b = (case a of None \<Rightarrow> b | Some e \<Rightarrow> Some e)"

lemma first_error_None_iff [guard_simps]:
  "first_error gs = None \<longleftrightarrow> (\<forall>g \<in> set gs. \<not> fst g)"
  by (induction gs) auto

lemma first_error_append [guard_simps]:
  "first_error (gs @ hs) = or_raise (first_error gs) (first_error hs)"
  by (induction gs) (auto simp: or_raise_def)

lemma first_some_None_iff [guard_simps]:
  "first_some f xs = None \<longleftrightarrow> (\<forall>x \<in> set xs. f x = None)"
  by (induction xs) (auto split: option.splits)

lemma first_some_trivial [simp]: "first_some (\<lambda>x. None) xs = None"
  by (induction xs) auto

lemma first_some_SomeD: "first_some f xs = Some e \<Longrightarrow> \<exists>x \<in> set xs. f x = Some e"
  by (induction xs) (auto split: option.splits)

lemma or_raise_None_iff [simp, guard_simps]: "or_raise a b = None \<longleftrightarrow> a = None \<and> b = None"
  by (simp add: or_raise_def split: option.split)

lemma or_raise_None_left [simp]: "or_raise None b = b"
  by (simp add: or_raise_def)

lemma or_raise_Some_left [simp]: "or_raise (Some e) b = Some e"
  by (simp add: or_raise_def)

text \<open>\<^verbatim>\<open>x is not None and p(x)\<close>\<close>

definition some_and :: "'a option \<Rightarrow> ('a \<Rightarrow> bool) \<Rightarrow> bool" where
  "some_and x P = (case x of None \<Rightarrow> False | Some t \<Rightarrow> P t)"

lemma some_and_iff [simp]: "some_and x P \<longleftrightarrow> (\<exists>t. x = Some t \<and> P t)"
  by (simp add: some_and_def split: option.split)

section \<open>Dictionaries\<close>

type_synonym ('k, 'v) dict = "('k \<times> 'v) list"

abbreviation dict_keys :: "('k, 'v) dict \<Rightarrow> 'k list" where
  "dict_keys d \<equiv> map fst d"

abbreviation wf_dict :: "('k, 'v) dict \<Rightarrow> bool" where
  "wf_dict d \<equiv> distinct (map fst d)"

text \<open>Lookups stay lookups: membership in the pair list is introduced only on demand.\<close>

declare map_of_eq_Some_iff [simp del] Some_eq_map_of_iff [simp del]

lemma map_of_update [simp]: "map_of (AList.update k v d) = (map_of d)(k \<mapsto> v)"
  by (rule AList.update_conv')

lemma map_of_delete [simp]: "map_of (AList.delete k d) = (map_of d)(k := None)"
  by (rule AList.delete_conv')

lemma wf_dict_update [simp, intro]: "wf_dict d \<Longrightarrow> wf_dict (AList.update k v d)"
  by (rule AList.distinct_update)

lemma wf_dict_delete [simp, intro]: "wf_dict d \<Longrightarrow> wf_dict (AList.delete k d)"
  by (rule AList.distinct_delete)

lemma set_update_wf [dict_simps]:
  "wf_dict d \<Longrightarrow> set (AList.update k v d) = insert (k, v) {p \<in> set d. fst p \<noteq> k}"
  by (induction d) (auto simp: rev_image_eqI)

lemma update_new [dict_simps]: "k \<notin> fst ` set d \<Longrightarrow> AList.update k v d = d @ [(k, v)]"
  by (induction d) auto

lemma keys_update_present [simp]:
  "k \<in> fst ` set d \<Longrightarrow> map fst (AList.update k v d) = map fst d"
  by (induction d) auto

lemma keys_update [simp]: "fst ` set (AList.update k v d) = insert k (fst ` set d)"
  by (induction d) auto

lemma keys_delete [simp]: "fst ` set (AList.delete k d) = fst ` set d - {k}"
  by (auto simp: AList.delete_eq image_iff)

lemma key_iff: "k \<in> fst ` set d \<longleftrightarrow> map_of d k \<noteq> None"
  by (simp add: map_of_eq_None_iff)

lemma map_of_values: "map_of d k = Some v \<Longrightarrow> v \<in> snd ` set d"
  by (force dest: map_of_SomeD)

text \<open>The total of a quantity over the values of a dictionary.\<close>

definition dict_sum :: "('v \<Rightarrow> int) \<Rightarrow> ('k, 'v) dict \<Rightarrow> int" where
  "dict_sum f d = sum_list (map (f \<circ> snd) d)"

lemma dict_sum_Nil [simp]: "dict_sum f [] = 0"
  by (simp add: dict_sum_def)

lemma dict_sum_Cons [simp]: "dict_sum f (p # d) = f (snd p) + dict_sum f d"
  by (simp add: dict_sum_def)

lemma dict_sum_update [dict_simps]:
  "dict_sum f (AList.update k v d) =
     dict_sum f d + f v - (case map_of d k of None \<Rightarrow> 0 | Some w \<Rightarrow> f w)"
  by (induction d) auto

lemma delete_absent [dict_simps]: "k \<notin> fst ` set d \<Longrightarrow> AList.delete k d = d"
  by (induction d) (auto simp: AList.delete_eq)

lemma dict_sum_delete [dict_simps]:
  "wf_dict d \<Longrightarrow> dict_sum f (AList.delete k d) =
     dict_sum f d - (case map_of d k of None \<Rightarrow> 0 | Some w \<Rightarrow> f w)"
proof (induction d)
  case Nil
  then show ?case by (simp add: AList.delete_eq)
next
  case (Cons p d)
  show ?case
  proof (cases "fst p = k")
    case True
    with Cons.prems have "k \<notin> fst ` set d" by auto
    with True show ?thesis by (cases p) (simp add: delete_absent)
  next
    case False
    with Cons show ?thesis by (cases p) auto
  qed
qed

lemma dict_sum_nonneg: "\<forall>p \<in> set d. 0 \<le> f (snd p) \<Longrightarrow> 0 \<le> dict_sum f d"
  by (induction d) auto

lemma set_delete [dict_simps]: "set (AList.delete k d) = {p \<in> set d. fst p \<noteq> k}"
  by (auto simp: AList.delete_eq)

text \<open>\<^verbatim>\<open>{f(x): x for x in xs}\<close>: a repeated key keeps its place and takes the last value.\<close>

definition dict_by :: "('a \<Rightarrow> 'k) \<Rightarrow> 'a list \<Rightarrow> ('k, 'a) dict" where
  "dict_by f xs = foldl (\<lambda>d x. AList.update (f x) x d) [] xs"

lemma length_update:
  "length (AList.update k v d) = (if k \<in> fst ` set d then length d else Suc (length d))"
  by (induction d) auto

lemma foldl_update_length:
  "length (foldl (\<lambda>d x. AList.update (f x) x d) d xs) \<le> length d + length xs"
proof (induction xs arbitrary: d)
  case (Cons x xs)
  from Cons [of "AList.update (f x) x d"] show ?case
    by (simp add: length_update split: if_splits)
qed simp

lemma foldl_update_fresh:
  "length (foldl (\<lambda>d x. AList.update (f x) x d) d xs) = length d + length xs \<longleftrightarrow>
     distinct (map f xs) \<and> f ` set xs \<inter> fst ` set d = {}"
proof (induction xs arbitrary: d)
  case (Cons x xs)
  show ?case
  proof (cases "f x \<in> fst ` set d")
    case True
    then show ?thesis
      using foldl_update_length [of f "AList.update (f x) x d" xs] by (auto simp: length_update)
  next
    case False
    then show ?thesis using Cons [of "AList.update (f x) x d"] by (auto simp: length_update)
  qed
qed simp

lemma foldl_update_append:
  "distinct (map f xs) \<Longrightarrow> f ` set xs \<inter> fst ` set d = {} \<Longrightarrow>
     foldl (\<lambda>d x. AList.update (f x) x d) d xs = d @ map (\<lambda>x. (f x, x)) xs"
proof (induction xs arbitrary: d)
  case (Cons x xs)
  then have "f ` set xs \<inter> fst ` set (d @ [(f x, x)]) = {}" by auto
  with Cons show ?case by (auto simp: update_new)
qed simp

lemma dict_by_length_iff: "length (dict_by f xs) = length xs \<longleftrightarrow> distinct (map f xs)"
  using foldl_update_fresh [of f "[]" xs] by (simp add: dict_by_def)

lemma dict_by_distinct: "distinct (map f xs) \<Longrightarrow> dict_by f xs = map (\<lambda>x. (f x, x)) xs"
  using foldl_update_append [of f xs "[]"] by (simp add: dict_by_def)

lemma map_of_dict_by:
  assumes "distinct (map f xs)"
  shows "map_of (dict_by f xs) k = Some x \<longleftrightarrow> x \<in> set xs \<and> f x = k"
proof -
  have "distinct (map fst (map (\<lambda>x. (f x, x)) xs))" using assms by (simp add: comp_def)
  then have "map_of (map (\<lambda>x. (f x, x)) xs) k = Some x \<longleftrightarrow> (k, x) \<in> set (map (\<lambda>x. (f x, x)) xs)"
    by (rule map_of_eq_Some_iff)
  then show ?thesis by (auto simp: dict_by_distinct [OF assms])
qed

section \<open>Datetimes\<close>

datatype py_datetime = DT (utcoffset: "int option") (instant: int)

definition is_utc :: "py_datetime \<Rightarrow> bool" where
  "is_utc d \<longleftrightarrow> utcoffset d = Some 0"

text \<open>\<^verbatim>\<open>max(a, b)\<close> keeps the first argument unless the second is strictly later.\<close>

definition dt_max :: "py_datetime \<Rightarrow> py_datetime \<Rightarrow> py_datetime" where
  "dt_max a b = (if instant b > instant a then b else a)"

lemma is_utc_DT [simp]: "is_utc (DT (Some 0) t)"
  by (simp add: is_utc_def)

lemma dt_max_ge [simp]:
  "instant a \<le> instant (dt_max a b)" "instant b \<le> instant (dt_max a b)"
  by (simp_all add: dt_max_def)

lemma dt_max_utc [simp]: "is_utc a \<Longrightarrow> is_utc b \<Longrightarrow> is_utc (dt_max a b)"
  by (simp add: dt_max_def)

lemma dt_max_instant: "instant (dt_max a b) = max (instant a) (instant b)"
  by (simp add: dt_max_def max_def)

section \<open>Strings\<close>

text \<open>
  \<^verbatim>\<open>str.isspace\<close> on the code points below 256: the ASCII blanks and separators, NEL and
  NO-BREAK SPACE.
\<close>

definition is_space :: "char \<Rightarrow> bool" where
  "is_space c \<longleftrightarrow>
     (let n = of_char c :: nat
      in (9 \<le> n \<and> n \<le> 13) \<or> (28 \<le> n \<and> n \<le> 32) \<or> n = 133 \<or> n = 160)"

text \<open>\<^verbatim>\<open>not s.strip()\<close>\<close>

definition blank :: "string \<Rightarrow> bool" where
  "blank s \<longleftrightarrow> list_all is_space s"

definition py_strip :: "string \<Rightarrow> string" where
  "py_strip s = rev (dropWhile is_space (rev (dropWhile is_space s)))"

text \<open>Truthiness of an optional string: \<open>None\<close> and the empty string are false.\<close>

definition truthy :: "string option \<Rightarrow> bool" where
  "truthy v = (case v of None \<Rightarrow> False | Some s \<Rightarrow> s \<noteq> [])"

text \<open>\<^verbatim>\<open>s.split()\<close> and \<^verbatim>\<open>" ".join(...)\<close>.\<close>

fun py_words :: "string \<Rightarrow> string \<Rightarrow> string list" where
  "py_words acc [] = (if acc = [] then [] else [rev acc])"
| "py_words acc (c # cs) =
     (if is_space c then (if acc = [] then py_words [] cs else rev acc # py_words [] cs)
      else py_words (c # acc) cs)"

fun join_space :: "string list \<Rightarrow> string" where
  "join_space [] = []"
| "join_space [w] = w"
| "join_space (w # ws) = w @ '' '' @ join_space ws"

text \<open>\<^verbatim>\<open>pat in s\<close>\<close>

fun has_substring :: "string \<Rightarrow> string \<Rightarrow> bool" where
  "has_substring pat [] = (pat = [])"
| "has_substring pat (c # cs) = (take (length pat) (c # cs) = pat \<or> has_substring pat cs)"

text \<open>
  Lower-casing of the ASCII letters: what \<^verbatim>\<open>casefold\<close> does to the letters a search for an
  ASCII word can meet.
\<close>

definition lower_char :: "char \<Rightarrow> char" where
  "lower_char c =
     (let n = of_char c :: nat in if 65 \<le> n \<and> n \<le> 90 then char_of (n + 32) else c)"

definition is_alnum_ascii :: "char \<Rightarrow> bool" where
  "is_alnum_ascii c \<longleftrightarrow>
     (let n = of_char c :: nat
      in (48 \<le> n \<and> n \<le> 57) \<or> (65 \<le> n \<and> n \<le> 90) \<or> (97 \<le> n \<and> n \<le> 122))"

lemma blank_Nil [simp]: "blank []"
  by (simp add: blank_def)

lemma not_blank_nonempty: "\<not> blank s \<Longrightarrow> s \<noteq> []"
  by auto

lemma truthy_simps [simp]: "\<not> truthy None" "truthy (Some s) \<longleftrightarrow> s \<noteq> []"
  by (simp_all add: truthy_def)

section \<open>Component contracts\<close>

text \<open>The state after a history of calls, each of which may have raised.\<close>

abbreviation after_all :: "('s \<Rightarrow> 'e \<Rightarrow> 's) \<Rightarrow> 's \<Rightarrow> 'e list \<Rightarrow> 's" where
  "after_all post s es \<equiv> foldl post s es"

locale invariant_machine =
  fixes post :: "'s \<Rightarrow> 'e \<Rightarrow> 's"
    and inv :: "'s \<Rightarrow> bool"
  assumes post_inv: "inv s \<Longrightarrow> inv (post s e)"
begin

lemma history_inv: "inv s \<Longrightarrow> inv (after_all post s es)"
  by (induction es arbitrary: s) (auto intro: post_inv)

end

text \<open>A machine with final states that no call can leave or change.\<close>

locale absorbing_machine = invariant_machine post inv
  for post :: "'s \<Rightarrow> 'e \<Rightarrow> 's" and inv :: "'s \<Rightarrow> bool" +
  fixes final :: "'s \<Rightarrow> bool"
  assumes final_absorbs: "inv s \<Longrightarrow> final s \<Longrightarrow> post s e = s"
begin

lemma history_final: "inv s \<Longrightarrow> final s \<Longrightarrow> after_all post s es = s"
  by (induction es) (auto simp: final_absorbs)

end

text \<open>A machine whose states evolve along a preorder.\<close>

locale evolving_machine = invariant_machine post inv
  for post :: "'s \<Rightarrow> 'e \<Rightarrow> 's" and inv :: "'s \<Rightarrow> bool" +
  fixes rel :: "'s \<Rightarrow> 's \<Rightarrow> bool"
  assumes rel_refl: "rel s s"
      and rel_trans: "rel s t \<Longrightarrow> rel t u \<Longrightarrow> rel s u"
      and post_rel: "inv s \<Longrightarrow> rel s (post s e)"
begin

lemma history_rel: "inv s \<Longrightarrow> rel s (after_all post s es)"
proof (induction es arbitrary: s)
  case Nil
  then show ?case by (simp add: rel_refl)
next
  case (Cons e es)
  from Cons.prems have "rel (post s e) (after_all post (post s e) es)"
    by (intro Cons.IH post_inv)
  with post_rel [OF Cons.prems] show ?case by (auto intro: rel_trans)
qed

end

text \<open>A machine with a quantity that never decreases.\<close>

locale monotone_machine = invariant_machine post inv
  for post :: "'s \<Rightarrow> 'e \<Rightarrow> 's" and inv :: "'s \<Rightarrow> bool" +
  fixes rank :: "'s \<Rightarrow> int"
  assumes rank_mono: "inv s \<Longrightarrow> rank s \<le> rank (post s e)"

sublocale monotone_machine \<subseteq> by_rank: evolving_machine post inv "\<lambda>s t. rank s \<le> rank t"
  by unfold_locales (auto intro: rank_mono)

context monotone_machine
begin

lemma history_rank: "inv s \<Longrightarrow> rank s \<le> rank (after_all post s es)"
  by (rule by_rank.history_rel)

end

text \<open>A machine that implements an abstract transition system: every call is a sequence of steps.\<close>

locale refining_machine = invariant_machine post inv
  for post :: "'s \<Rightarrow> 'e \<Rightarrow> 's" and inv :: "'s \<Rightarrow> bool" +
  fixes abs :: "'s \<Rightarrow> 'a" and step :: "'a \<Rightarrow> 'a \<Rightarrow> bool"
  assumes post_sim: "inv s \<Longrightarrow> step\<^sup>*\<^sup>* (abs s) (abs (post s e))"

sublocale refining_machine \<subseteq> by_steps: evolving_machine post inv "\<lambda>s t. step\<^sup>*\<^sup>* (abs s) (abs t)"
  by unfold_locales (auto intro: post_sim)

context refining_machine
begin

lemma history_sim: "inv s \<Longrightarrow> step\<^sup>*\<^sup>* (abs s) (abs (after_all post s es))"
  by (rule by_steps.history_rel)

end

end
