(* ===== verification/Cancellation.thy ===== *)
theory Cancellation
  imports Runtime_Prelude Complex_Main
begin

text \<open>
  \<^verbatim>\<open>core/runtime/cancellation.py\<close>, the \<^verbatim>\<open>Deadline\<close> of
  \<^verbatim>\<open>core/runtime/context.py\<close> and \<^verbatim>\<open>core/runtime/timeout.py\<close>: the two ways
  a Run stops being active and the local timeouts derived from them. Every method body of
  \<^verbatim>\<open>CancellationSource\<close> runs under one lock, so a call is one step of the model.
  Clock values are arguments: \<open>now\<close> is what \<^verbatim>\<open>datetime.now(UTC)\<close> returned and
  \<open>clk\<close> what \<^verbatim>\<open>clock.monotonic()\<close> returned, in seconds. Floats are reals.
\<close>

section \<open>Cancellation\<close>

datatype cancellation_reason =
    CLIENT_DISCONNECTED
  | SERVER_SHUTDOWN
  | REQUEST_CANCELLED
  | REQUEST_DEADLINE_EXCEEDED
  | STREAM_ENCODING_FAILED

text \<open>A stored reason is an enum member or the compatibility short string.\<close>

datatype cancel_reason = Reason cancellation_reason | ReasonText string

datatype cancel_error = RunCancelledError string | NaiveTimestampError

fun reason_value :: "cancellation_reason \<Rightarrow> string" where
  "reason_value CLIENT_DISCONNECTED = ''CLIENT_DISCONNECTED''"
| "reason_value SERVER_SHUTDOWN = ''SERVER_SHUTDOWN''"
| "reason_value REQUEST_CANCELLED = ''REQUEST_CANCELLED''"
| "reason_value REQUEST_DEADLINE_EXCEEDED = ''REQUEST_DEADLINE_EXCEEDED''"
| "reason_value STREAM_ENCODING_FAILED = ''STREAM_ENCODING_FAILED''"

text \<open>\<^verbatim>\<open>RunCancelledError.__init__\<close>: the error carries the reason's text.\<close>

fun run_cancelled_error :: "cancel_reason \<Rightarrow> cancel_error" where
  "run_cancelled_error (Reason r) = RunCancelledError (reason_value r)"
| "run_cancelled_error (ReasonText t) = RunCancelledError t"

record cancellation_source =
  cs_event :: bool
  cs_reason :: "cancel_reason option"
  cs_cancelled_at :: "py_datetime option"

definition new_source :: cancellation_source where
  "new_source = \<lparr>cs_event = False, cs_reason = None, cs_cancelled_at = None\<rparr>"

definition is_cancelled :: "cancellation_source \<Rightarrow> bool" where
  "is_cancelled s = cs_event s"

definition raise_if_cancelled :: "cancellation_source \<Rightarrow> cancel_error option" where
  "raise_if_cancelled s = map_option run_cancelled_error (cs_reason s)"

text \<open>
  \<^verbatim>\<open>execute_if_active\<close> runs the commit action under the source's lock, so a concurrent
  \<^verbatim>\<open>cancel\<close> is ordered before or after it; \<open>operation\<close> is the action on whatever
  state it works on.
\<close>

definition execute_if_active ::
  "cancellation_source \<Rightarrow> ('a \<Rightarrow> 'b) \<Rightarrow> 'a \<Rightarrow> cancel_error + 'b" where
  "execute_if_active s operation x =
     (case cs_reason s of
        Some r \<Rightarrow> Inl (run_cancelled_error r)
      | None \<Rightarrow> Inr (operation x))"

definition astimezone_utc :: "py_datetime \<Rightarrow> py_datetime" where
  "astimezone_utc d = DT (Some 0) (instant d)"

definition cancel ::
  "cancellation_source \<Rightarrow> cancel_reason \<Rightarrow> py_datetime option \<Rightarrow> py_datetime
     \<Rightarrow> (cancel_error + bool) \<times> cancellation_source" where
  "cancel s reason occurred_at now =
     (let timestamp = (case occurred_at of Some t \<Rightarrow> t | None \<Rightarrow> now)
      in if utcoffset timestamp = None then (Inl NaiveTimestampError, s)
         else if cs_event s then (Inr False, s)
         else (Inr True, s\<lparr>cs_reason := Some reason,
                           cs_cancelled_at := Some (astimezone_utc timestamp),
                           cs_event := True\<rparr>))"

text \<open>The three fields of a source always agree.\<close>

definition source_ok :: "cancellation_source \<Rightarrow> bool" where
  "source_ok s \<longleftrightarrow>
     (cs_event s \<longleftrightarrow> cs_reason s \<noteq> None) \<and> (cs_event s \<longleftrightarrow> cs_cancelled_at s \<noteq> None)"

type_synonym cancel_call = "cancel_reason \<times> py_datetime option \<times> py_datetime"

definition cancel_post :: "cancellation_source \<Rightarrow> cancel_call \<Rightarrow> cancellation_source" where
  "cancel_post s c = snd (cancel s (fst c) (fst (snd c)) (snd (snd c)))"

lemma cancel_simps [simp]:
  "cs_event (cancel_post s c) \<longleftrightarrow>
     cs_event s \<or> utcoffset (case fst (snd c) of Some t \<Rightarrow> t | None \<Rightarrow> snd (snd c)) \<noteq> None"
  by (simp add: cancel_post_def cancel_def Let_def)

interpretation cancel_machine: absorbing_machine cancel_post source_ok cs_event
  by unfold_locales (auto simp: cancel_post_def cancel_def source_ok_def Let_def)

lemma source_ok_new: "source_ok new_source"
  by (simp add: source_ok_def new_source_def)

text \<open>
  First cancellation wins: once a call of \<^verbatim>\<open>cancel\<close> on an active source has
  succeeded, every later history of \<^verbatim>\<open>cancel\<close> calls leaves the reason, the time and the
  flag as that first call set them.
\<close>

theorem cancel_first_wins:
  assumes "source_ok s" and "cancel s reason occurred_at now = (Inr True, s')"
  shows "after_all cancel_post s' calls = s' \<and> cs_event s' \<and> cs_reason s' = Some reason"
proof -
  from assms(2) have s': "s' = cancel_post s (reason, occurred_at, now)"
    by (simp add: cancel_post_def)
  have ok: "source_ok s'"
    unfolding s' by (rule cancel_machine.post_inv [OF assms(1)])
  from assms(2) have "cs_event s' \<and> cs_reason s' = Some reason"
    by (auto simp: cancel_def Let_def split: if_splits)
  with cancel_machine.history_final [OF ok] show ?thesis by simp
qed

lemma raise_if_cancelled_None_iff [simp]:
  "raise_if_cancelled s = None \<longleftrightarrow> cs_reason s = None"
  by (simp add: raise_if_cancelled_def)

text \<open>A commit action runs exactly when the source has not been cancelled before it.\<close>

lemma execute_if_active_iff:
  "source_ok s \<Longrightarrow> (\<exists>y. execute_if_active s f x = Inr y) \<longleftrightarrow> \<not> is_cancelled s"
  by (auto simp: execute_if_active_def source_ok_def is_cancelled_def split: option.splits)

section \<open>Deadlines\<close>

record deadline =
  deadline_at :: "py_datetime option"
  monotonic_deadline :: "real option"

datatype deadline_error = BadTimeout | DeadlineNotUtc | RunDeadlineExceeded

text \<open>\<^verbatim>\<open>timedelta(seconds=x)\<close> rounds to a whole microsecond, halves to even.\<close>

definition round_half_even :: "real \<Rightarrow> int" where
  "round_half_even x =
     (let f = \<lfloor>x\<rfloor>; r = x - of_int f
      in if r < 1/2 then f else if r > 1/2 then f + 1 else if even f then f else f + 1)"

definition new_deadline ::
  "real option \<Rightarrow> py_datetime \<Rightarrow> real \<Rightarrow> deadline_error + deadline" where
  "new_deadline timeout_seconds now clk =
     (case timeout_seconds of
        None \<Rightarrow> Inr \<lparr>deadline_at = None, monotonic_deadline = None\<rparr>
      | Some t \<Rightarrow>
          if t \<le> 0 then Inl BadTimeout
          else Inr \<lparr>deadline_at =
                      Some (DT (utcoffset now) (instant now + round_half_even (t * 1000000))),
                    monotonic_deadline = Some (clk + t)\<rparr>)"

definition from_absolute ::
  "py_datetime option \<Rightarrow> py_datetime \<Rightarrow> real \<Rightarrow> deadline_error + deadline" where
  "from_absolute absolute_deadline now clk =
     (case absolute_deadline of
        None \<Rightarrow> Inr \<lparr>deadline_at = None, monotonic_deadline = None\<rparr>
      | Some d \<Rightarrow>
          if \<not> is_utc d then Inl DeadlineNotUtc
          else Inr \<lparr>deadline_at = Some d,
                    monotonic_deadline =
                      Some (clk + max 0 (of_int (instant d - instant now) / 1000000))\<rparr>)"

definition remaining_seconds :: "deadline \<Rightarrow> real \<Rightarrow> real option" where
  "remaining_seconds d clk = map_option (\<lambda>m. max 0 (m - clk)) (monotonic_deadline d)"

definition raise_if_expired :: "deadline \<Rightarrow> real \<Rightarrow> deadline_error option" where
  "raise_if_expired d clk =
     (case remaining_seconds d clk of
        None \<Rightarrow> None
      | Some r \<Rightarrow> if r \<le> 0 then Some RunDeadlineExceeded else None)"

text \<open>\<^verbatim>\<open>RunContext.raise_if_inactive\<close>: cancellation is reported before the deadline.\<close>

datatype inactive_error = Cancelled cancel_error | Expired deadline_error

definition raise_if_inactive ::
  "cancellation_source \<Rightarrow> deadline \<Rightarrow> real \<Rightarrow> inactive_error option" where
  "raise_if_inactive s d clk =
     or_raise (map_option Cancelled (raise_if_cancelled s))
              (map_option Expired (raise_if_expired d clk))"

text \<open>
  A deadline rebuilt after a restart grants no fresh time: at any later reading of the
  clocks of the new process the time left is what the persisted wall-clock deadline leaves,
  and never more than it left when the deadline was rebuilt.
\<close>

theorem from_absolute_no_fresh_time:
  assumes "from_absolute (Some dl) now clk = Inr d" and "0 \<le> elapsed"
  shows "remaining_seconds d (clk + elapsed) =
           Some (max 0 (max 0 (of_int (instant dl - instant now) / 1000000) - elapsed)) \<and>
         (raise_if_expired d (clk + elapsed) = None \<longleftrightarrow>
           elapsed < of_int (instant dl - instant now) / 1000000)"
proof -
  from assms(1) have d: "monotonic_deadline d =
      Some (clk + max 0 (of_int (instant dl - instant now) / 1000000))"
    by (auto simp: from_absolute_def split: if_splits)
  have rem: "remaining_seconds d (clk + elapsed) =
           Some (max 0 (max 0 (of_int (instant dl - instant now) / 1000000) - elapsed))"
    by (simp add: remaining_seconds_def d)
  show ?thesis
    using assms(2) by (auto simp: raise_if_expired_def rem max_def)
qed

section \<open>Local timeouts\<close>

datatype operation_type = OP_STEP | OP_MODEL | OP_TOOL | OP_RAG | OP_APPROVAL

definition effective_timeout_seconds ::
  "deadline \<Rightarrow> real \<Rightarrow> real option \<Rightarrow> deadline_error + real option" where
  "effective_timeout_seconds d clk local_timeout =
     (if (some_and local_timeout (\<lambda>t. t \<le> 0)) then Inl BadTimeout
      else Inr (case remaining_seconds d clk of
                  None \<Rightarrow> local_timeout
                | Some parent \<Rightarrow>
                    (case local_timeout of
                       Some t \<Rightarrow> Some (min parent t)
                     | None \<Rightarrow> Some parent)))"

text \<open>A local timeout never outlives the Run's deadline nor its own bound.\<close>

lemma effective_timeout_bounds:
  assumes "effective_timeout_seconds d clk l = Inr (Some t)"
  shows "(\<forall>r. remaining_seconds d clk = Some r \<longrightarrow> t \<le> r) \<and> (\<forall>u. l = Some u \<longrightarrow> t \<le> u)"
  using assms
  by (auto simp: effective_timeout_seconds_def split: if_splits option.splits)

end
