(* ===== verification/Budget.thy ===== *)
theory Budget
  imports Cancellation
begin

text \<open>
  \<^verbatim>\<open>core/runtime/budget.py\<close>: the per-Run budget ledger. The code reads and writes usages
  dimension by dimension (\<^verbatim>\<open>getattr(usage, dim)\<close> over \<^verbatim>\<open>_DIMENSIONS\<close>), so a
  usage is a function from dimensions to amounts and a budget a function from dimensions to
  optional limits. Every ledger method runs under the ledger's lock: it is one step that
  returns its outcome and the ledger it leaves behind, also when it raises (a delegated
  commit and a mismatched release raise after they have changed the ledger). The lazily
  created \<^verbatim>\<open>_envelopes\<close> and \<^verbatim>\<open>_delegated_reservations\<close> are empty
  dictionaries here. Reservation ids (\<^verbatim>\<open>uuid4().hex\<close>) and clock readings are arguments.
\<close>

section \<open>Dimensions, usages and budgets\<close>

datatype dimension =
    step_starts | model_calls | remote_model_calls | tool_calls | input_tokens | output_tokens
  | total_tokens | cost_units | retries | retrieval_calls | embedding_calls | vector_queries
  | keyword_queries | bm25_queries | rrf_fusions | document_reads | context_chars

definition dimensions :: "dimension list" where
  "dimensions =
     [step_starts, model_calls, remote_model_calls, tool_calls, input_tokens, output_tokens,
      total_tokens, cost_units, retries, retrieval_calls, embedding_calls, vector_queries,
      keyword_queries, bm25_queries, rrf_fusions, document_reads, context_chars]"

text \<open>The entries of \<^verbatim>\<open>exhausted_dimensions\<close>: a dimension or \<^verbatim>\<open>elapsed_seconds\<close>.\<close>

datatype budget_key = Dim dimension | ElapsedSeconds

datatype budget_error =
    UsageNegative dimension
  | UsageTotalTooSmall
  | LimitInvalid
  | BudgetExceeded budget_key int int
  | ReservationUnknown
  | DELEGATION_ALLOCATION_MISSING
  | DELEGATION_INFLIGHT
  | DELEGATION_BUDGET_EXCEEDED
  | EnvelopeKeyError

record run_budget =
  limit_of :: "dimension \<Rightarrow> int option"
  max_elapsed_seconds :: "real option"
  max_concurrency :: "int option"

definition run_budget_check :: "run_budget \<Rightarrow> budget_error option" where
  "run_budget_check b = first_error
     [(some_and (max_elapsed_seconds b) (\<lambda>t. t \<le> 0), LimitInvalid),
      (some_and (max_concurrency b) (\<lambda>c. c \<le> 0), LimitInvalid),
      (\<exists>d \<in> set dimensions. some_and (limit_of b d) (\<lambda>m. m < 0), LimitInvalid)]"

record usage =
  amount :: "dimension \<Rightarrow> int"
  allow_independent_total :: bool

text \<open>\<^verbatim>\<open>BudgetUsage.__post_init__\<close>\<close>

definition usage_check :: "usage \<Rightarrow> budget_error option" where
  "usage_check u = or_raise
     (first_some (\<lambda>d. if amount u d < 0 then Some (UsageNegative d) else None) dimensions)
     (if \<not> allow_independent_total u \<and>
         amount u total_tokens < amount u input_tokens + amount u output_tokens
      then Some UsageTotalTooSmall else None)"

definition mk_usage :: "(dimension \<Rightarrow> int) \<Rightarrow> bool \<Rightarrow> budget_error + usage" where
  "mk_usage f indep =
     (let u = \<lparr>amount = f, allow_independent_total = indep\<rparr>
      in case usage_check u of Some e \<Rightarrow> Inl e | None \<Rightarrow> Inr u)"

definition zero_usage :: usage where
  "zero_usage = \<lparr>amount = (\<lambda>_. 0), allow_independent_total = False\<rparr>"

definition usage_plus :: "usage \<Rightarrow> usage \<Rightarrow> budget_error + usage" where
  "usage_plus a b = mk_usage (\<lambda>d. amount a d + amount b d)
     (allow_independent_total a \<or> allow_independent_total b)"

definition usage_minus :: "usage \<Rightarrow> usage \<Rightarrow> budget_error + usage" where
  "usage_minus a b = mk_usage (\<lambda>d. amount a d - amount b d)
     (allow_independent_total a \<or> allow_independent_total b)"

datatype usage_source = ACTUAL | ESTIMATED

section \<open>The ledger\<close>

record reservation =
  reservation_id :: string
  reservation_type :: string
  reservation_step_id :: "string option"
  reserved_usage :: usage
  reservation_created_at :: py_datetime

record snapshot =
  sn_budget :: run_budget
  sn_committed :: usage
  sn_reserved :: usage
  sn_remaining :: usage
  sn_elapsed :: real
  sn_remaining_time :: "real option"
  sn_active :: nat
  sn_exhausted :: "budget_key list"
  sn_generated_at :: py_datetime

record ledger =
  budget :: run_budget
  started :: real
  committed :: usage
  reservations :: "(string, reservation) dict"
  envelopes :: "(string, usage) dict"
  delegated :: "(string, string) dict"

text \<open>What the ledger reads from its environment during one call.\<close>

record reading =
  clock_now :: real
  wall_now :: py_datetime
  deadline_remaining :: "real option"

definition new_ledger :: "run_budget \<Rightarrow> real \<Rightarrow> ledger" where
  "new_ledger b t = \<lparr>budget = b, started = t, committed = zero_usage,
     reservations = [], envelopes = [], delegated = []\<rparr>"

primrec sum_usages :: "usage \<Rightarrow> usage list \<Rightarrow> budget_error + usage" where
  "sum_usages acc [] = Inr acc"
| "sum_usages acc (u # us) =
     (case usage_plus acc u of Inl e \<Rightarrow> Inl e | Inr v \<Rightarrow> sum_usages v us)"

definition reserved :: "ledger \<Rightarrow> budget_error + usage" where
  "reserved l = sum_usages zero_usage
     (map (reserved_usage \<circ> snd) (reservations l) @ map snd (envelopes l))"

definition remaining_amount :: "ledger \<Rightarrow> usage \<Rightarrow> dimension \<Rightarrow> int" where
  "remaining_amount l r d =
     (case limit_of (budget l) d of
        None \<Rightarrow> 0
      | Some m \<Rightarrow> max 0 (m - amount (committed l) d - amount r d))"

definition remaining_time :: "ledger \<Rightarrow> reading \<Rightarrow> real option" where
  "remaining_time l env =
     (let own = map_option (\<lambda>m. max 0 (m - (clock_now env - started l)))
                  (max_elapsed_seconds (budget l));
          run = map_option (max 0) (deadline_remaining env)
      in case own of
           None \<Rightarrow> run
         | Some a \<Rightarrow> (case run of None \<Rightarrow> Some a | Some b \<Rightarrow> Some (min a b)))"

definition snapshot_locked :: "ledger \<Rightarrow> reading \<Rightarrow> budget_error + snapshot" where
  "snapshot_locked l env =
     (case reserved l of
        Inl e \<Rightarrow> Inl e
      | Inr r \<Rightarrow>
          (let rt = remaining_time l env;
               rem = remaining_amount l r;
               exhausted = map Dim (filter (\<lambda>d. limit_of (budget l) d \<noteq> None \<and> rem d = 0) dimensions)
                 @ (if (some_and rt (\<lambda>t. t \<le> 0)) then [ElapsedSeconds] else [])
           in case mk_usage rem True of
                Inl e \<Rightarrow> Inl e
              | Inr remaining \<Rightarrow>
                  Inr \<lparr>sn_budget = budget l, sn_committed = committed l, sn_reserved = r,
                       sn_remaining = remaining, sn_elapsed = clock_now env - started l,
                       sn_remaining_time = rt, sn_active = length (reservations l),
                       sn_exhausted = exhausted, sn_generated_at = wall_now env\<rparr>))"

definition ledger_snapshot ::
  "ledger \<Rightarrow> string option \<Rightarrow> reading \<Rightarrow> budget_error + snapshot" where
  "ledger_snapshot l delegation_id env =
     (case snapshot_locked l env of
        Inl e \<Rightarrow> Inl e
      | Inr snap \<Rightarrow>
          (case delegation_id of
             None \<Rightarrow> Inr snap
           | Some did \<Rightarrow>
               (case map_of (envelopes l) did of
                  None \<Rightarrow> Inl DELEGATION_ALLOCATION_MISSING
                | Some remaining \<Rightarrow> Inr (snap\<lparr>sn_remaining := remaining\<rparr>))))"

type_synonym 'a ledger_call = "(budget_error + 'a) \<times> ledger"

definition allocate_delegation ::
  "ledger \<Rightarrow> string \<Rightarrow> usage \<Rightarrow> reading \<Rightarrow> unit ledger_call" where
  "allocate_delegation l did u env =
     (if map_of (envelopes l) did \<noteq> None then (Inr (), l)
      else case snapshot_locked l env of
        Inl e \<Rightarrow> (Inl e, l)
      | Inr snap \<Rightarrow>
          (case first_some (\<lambda>d. if limit_of (budget l) d \<noteq> None \<and>
                                   amount u d > amount (sn_remaining snap) d
                                then Some (BudgetExceeded (Dim d) (amount u d)
                                             (amount (sn_remaining snap) d))
                                else None) dimensions of
             Some e \<Rightarrow> (Inl e, l)
           | None \<Rightarrow> (Inr (), l\<lparr>envelopes := AList.update did u (envelopes l)\<rparr>)))"

definition release_delegation :: "ledger \<Rightarrow> string \<Rightarrow> unit ledger_call" where
  "release_delegation l did =
     (if did \<in> snd ` set (delegated l) then (Inl DELEGATION_INFLIGHT, l)
      else (Inr (), l\<lparr>envelopes := AList.delete did (envelopes l)\<rparr>))"

definition reserve ::
  "ledger \<Rightarrow> usage \<Rightarrow> string \<Rightarrow> string option \<Rightarrow> string option \<Rightarrow> string \<Rightarrow> reading
     \<Rightarrow> reservation ledger_call" where
  "reserve l u rtype step delegation_id rid env =
     (case snapshot_locked l env of
        Inl e \<Rightarrow> (Inl e, l)
      | Inr snap \<Rightarrow>
          (if (some_and (sn_remaining_time snap) (\<lambda>t. t \<le> 0))
           then (Inl (BudgetExceeded ElapsedSeconds 1 0), l)
           else
             let r = \<lparr>reservation_id = rid, reservation_type = rtype, reservation_step_id = step,
                      reserved_usage = u, reservation_created_at = wall_now env\<rparr>
             in case delegation_id of
               Some did \<Rightarrow>
                 (case map_of (envelopes l) did of
                    None \<Rightarrow> (Inl DELEGATION_ALLOCATION_MISSING, l)
                  | Some available \<Rightarrow>
                      (case first_some (\<lambda>d. if amount u d > amount available d
                                            then Some (BudgetExceeded (Dim d) (amount u d)
                                                         (amount available d))
                                            else None) dimensions of
                         Some e \<Rightarrow> (Inl e, l)
                       | None \<Rightarrow>
                           (case usage_minus available u of
                              Inl e \<Rightarrow> (Inl e, l)
                            | Inr left \<Rightarrow>
                                (Inr r, l\<lparr>envelopes := AList.update did left (envelopes l),
                                          delegated := AList.update rid did (delegated l),
                                          reservations := AList.update rid r (reservations l)\<rparr>))))
             | None \<Rightarrow>
                 (case first_some (\<lambda>d. case limit_of (budget l) d of
                                          None \<Rightarrow> None
                                        | Some m \<Rightarrow>
                                            if amount (committed l) d + amount (sn_reserved snap) d
                                                 + amount u d > m
                                            then Some (BudgetExceeded (Dim d) (amount u d)
                                                         (amount (sn_remaining snap) d))
                                            else None) dimensions of
                    Some e \<Rightarrow> (Inl e, l)
                  | None \<Rightarrow> (Inr r, l\<lparr>reservations := AList.update rid r (reservations l)\<rparr>))))"

text \<open>
  \<^verbatim>\<open>commit\<close>. A delegated reservation is settled against its envelope, and an overrun is
  charged to the root ledger before the error is raised; any other reservation is settled
  against the limits, and is put back when the actual usage does not fit.
\<close>

definition commit_delegated ::
  "ledger \<Rightarrow> reservation \<Rightarrow> usage \<Rightarrow> string \<Rightarrow> reading \<Rightarrow> snapshot ledger_call" where
  "commit_delegated l r actual did env =
     (let l1 = l\<lparr>delegated := AList.delete (reservation_id r) (delegated l)\<rparr>
      in case map_of (envelopes l) did of
           None \<Rightarrow> (Inl EnvelopeKeyError, l1)
         | Some available \<Rightarrow>
             (case usage_plus available (reserved_usage r) of
                Inl e \<Rightarrow> (Inl e, l1)
              | Inr refunded \<Rightarrow>
                  (let over = (\<exists>d \<in> set dimensions. amount actual d > amount refunded d)
                   in case mk_usage (\<lambda>d. max 0 (amount refunded d - amount actual d)) True of
                        Inl e \<Rightarrow> (Inl e, l1)
                      | Inr left \<Rightarrow>
                          (let l2 = l1\<lparr>envelopes := AList.update did left (envelopes l),
                                       reservations :=
                                         AList.delete (reservation_id r) (reservations l)\<rparr>
                           in case usage_plus (committed l) actual of
                                Inl e \<Rightarrow> (Inl e, l2)
                              | Inr c \<Rightarrow>
                                  (let l3 = l2\<lparr>committed := c\<rparr>
                                   in if over then (Inl DELEGATION_BUDGET_EXCEEDED, l3)
                                      else (snapshot_locked l3 env, l3))))))"

definition commit ::
  "ledger \<Rightarrow> reservation \<Rightarrow> usage option \<Rightarrow> reading \<Rightarrow> snapshot ledger_call" where
  "commit l r actual_usage env =
     (if map_of (reservations l) (reservation_id r) \<noteq> Some r then (Inl ReservationUnknown, l)
      else
        let actual = (case actual_usage of Some a \<Rightarrow> a | None \<Rightarrow> reserved_usage r)
        in case map_of (delegated l) (reservation_id r) of
             Some did \<Rightarrow> commit_delegated l r actual did env
           | None \<Rightarrow>
               (let l1 = l\<lparr>reservations := AList.delete (reservation_id r) (reservations l)\<rparr>
                in case snapshot_locked l1 env of
                     Inl e \<Rightarrow> (Inl e, l1)
                   | Inr without \<Rightarrow>
                       (case first_some (\<lambda>d. case limit_of (budget l) d of
                                 None \<Rightarrow> None
                               | Some m \<Rightarrow>
                                   if amount (committed l) d + amount (sn_reserved without) d
                                        + amount actual d > m
                                   then Some d else None) dimensions of
                          Some d \<Rightarrow>
                            (let l2 = l1\<lparr>reservations :=
                                           AList.update (reservation_id r) r (reservations l1)\<rparr>
                             in case snapshot_locked l2 env of
                                  Inl e \<Rightarrow> (Inl e, l2)
                                | Inr snap \<Rightarrow>
                                    (Inl (BudgetExceeded (Dim d) (amount actual d)
                                            (amount (sn_remaining snap) d)), l2))
                        | None \<Rightarrow>
                            (case usage_plus (committed l) actual of
                               Inl e \<Rightarrow> (Inl e, l1)
                             | Inr c \<Rightarrow>
                                 (let l2 = l1\<lparr>committed := c\<rparr>
                                  in (snapshot_locked l2 env, l2))))))"

definition release :: "ledger \<Rightarrow> reservation \<Rightarrow> reading \<Rightarrow> snapshot ledger_call" where
  "release l r env =
     (let stored = map_of (reservations l) (reservation_id r);
          l1 = l\<lparr>reservations := AList.delete (reservation_id r) (reservations l)\<rparr>
      in if stored \<noteq> Some r then (Inl ReservationUnknown, l1)
         else
           (let l2 = l1\<lparr>delegated := AList.delete (reservation_id r) (delegated l)\<rparr>
            in case map_of (delegated l) (reservation_id r) of
                 None \<Rightarrow> (snapshot_locked l2 env, l2)
               | Some did \<Rightarrow>
                   (case map_of (envelopes l) did of
                      None \<Rightarrow> (Inl EnvelopeKeyError, l2)
                    | Some available \<Rightarrow>
                        (case usage_plus available (reserved_usage r) of
                           Inl e \<Rightarrow> (Inl e, l2)
                         | Inr gain \<Rightarrow>
                             (let l3 = l2\<lparr>envelopes := AList.update did gain (envelopes l)\<rparr>
                              in (snapshot_locked l3 env, l3))))))"

text \<open>\<^verbatim>\<open>BudgetPolicy.feasible\<close>: a check on a snapshot, without touching the ledger.\<close>

definition feasible :: "snapshot \<Rightarrow> usage \<Rightarrow> bool" where
  "feasible snap u =
     (if (some_and (sn_remaining_time snap) (\<lambda>t. t \<le> 0)) then False
      else list_all (\<lambda>d. limit_of (sn_budget snap) d = None \<or>
                         amount u d \<le> amount (sn_remaining snap) d) dimensions)"

section \<open>Rebuilding a ledger after a crash\<close>

record durable_op =
  op_kind :: string
  op_state :: string
  op_unspent :: "dimension \<Rightarrow> int"

definition remove_prefix :: "string \<Rightarrow> string \<Rightarrow> string" where
  "remove_prefix p s = (if take (length p) s = p then drop (length p) s else s)"

definition durable_envelopes ::
  "(string, durable_op) dict \<Rightarrow> (string, dimension \<Rightarrow> int) dict" where
  "durable_envelopes ops =
     fold (\<lambda>(k, op). AList.update (remove_prefix ''delegation:'' k) (op_unspent op))
       (filter (\<lambda>(k, op). op_kind op = ''DELEGATION_ALLOCATION'' \<and> op_state op = ''RESERVED'') ops) []"

primrec mk_envelopes ::
  "(string, dimension \<Rightarrow> int) dict \<Rightarrow> budget_error + (string, usage) dict" where
  "mk_envelopes [] = Inr []"
| "mk_envelopes (p # ps) =
     (case mk_usage (snd p) True of
        Inl e \<Rightarrow> Inl e
      | Inr u \<Rightarrow> (case mk_envelopes ps of Inl e \<Rightarrow> Inl e | Inr us \<Rightarrow> Inr ((fst p, u) # us)))"

definition from_durable ::
  "run_budget \<Rightarrow> usage \<Rightarrow> usage option \<Rightarrow> (string, durable_op) dict \<Rightarrow> real
     \<Rightarrow> budget_error + ledger" where
  "from_durable b committed_usage reserved_opt ops t =
     (let res = (case reserved_opt of None \<Rightarrow> zero_usage | Some r \<Rightarrow> r);
          l = new_ledger b t;
          envs = durable_envelopes ops
      in if envs = []
         then (case usage_plus committed_usage res of
                 Inl e \<Rightarrow> Inl e
               | Inr c \<Rightarrow> Inr (l\<lparr>committed := c\<rparr>))
         else
           (case mk_envelopes envs of
              Inl e \<Rightarrow> Inl e
            | Inr us \<Rightarrow>
                (case sum_usages (zero_usage\<lparr>allow_independent_total := True\<rparr>) (map snd us) of
                   Inl e \<Rightarrow> Inl e
                 | Inr held \<Rightarrow>
                     (case usage_minus res held of
                        Inl e \<Rightarrow> Inl e
                      | Inr spent \<Rightarrow>
                          (case usage_plus committed_usage spent of
                             Inl e \<Rightarrow> Inl e
                           | Inr c \<Rightarrow> Inr (l\<lparr>committed := c, envelopes := us\<rparr>))))))"

section \<open>The budgeted model stream\<close>

text \<open>
  \<^verbatim>\<open>BudgetedModelStream\<close>: the reservation of a lazy provider stream is settled when the
  stream is closed, as a commit once the provider has been asked for an item and as a release
  before that. \<open>item\<close> is what the underlying \<^verbatim>\<open>next\<close> did (\<open>None\<close> when it raised,
  \<^verbatim>\<open>StopIteration\<close> included), \<open>actual\<close> what the usage getter reported.
\<close>

record budgeted_stream =
  bs_reservation :: reservation
  bs_started :: bool
  bs_closed :: bool

definition stream_close ::
  "budgeted_stream \<Rightarrow> ledger \<Rightarrow> usage option \<Rightarrow> reading \<Rightarrow> budgeted_stream \<times> ledger" where
  "stream_close s l actual env =
     (if bs_closed s then (s, l)
      else (s\<lparr>bs_closed := True\<rparr>,
            snd (if bs_started s then commit l (bs_reservation s) actual env
                 else release l (bs_reservation s) env)))"

definition stream_next ::
  "budgeted_stream \<Rightarrow> ledger \<Rightarrow> 'a option \<Rightarrow> usage option \<Rightarrow> reading
     \<Rightarrow> 'a option \<times> budgeted_stream \<times> ledger" where
  "stream_next s l item actual env =
     (if bs_closed s then (None, s, l)
      else let s1 = s\<lparr>bs_started := True\<rparr>
           in case item of
                Some x \<Rightarrow> (Some x, s1, l)
              | None \<Rightarrow> (None, stream_close s1 l actual env))"

section \<open>Arithmetic of usages\<close>

definition usage_ok :: "usage \<Rightarrow> bool" where
  "usage_ok u \<longleftrightarrow> usage_check u = None"

lemma dimensions_UNIV [simp]: "set dimensions = UNIV"
  unfolding dimensions_def by (auto intro: dimension.exhaust)

lemma usage_ok_iff:
  "usage_ok u \<longleftrightarrow> (\<forall>d. 0 \<le> amount u d) \<and>
     (allow_independent_total u \<or>
      amount u input_tokens + amount u output_tokens \<le> amount u total_tokens)"
  by (auto simp: usage_ok_def usage_check_def guard_simps not_less split: if_splits)

lemma mk_usage_ok:
  "usage_ok \<lparr>amount = f, allow_independent_total = b\<rparr> \<Longrightarrow>
     mk_usage f b = Inr \<lparr>amount = f, allow_independent_total = b\<rparr>"
  by (simp add: mk_usage_def usage_ok_def)

lemma mk_usage_Inr:
  "mk_usage f b = Inr u \<Longrightarrow> u = \<lparr>amount = f, allow_independent_total = b\<rparr> \<and> usage_ok u"
  by (auto simp: mk_usage_def usage_ok_def Let_def split: option.splits)

lemma zero_usage_ok [simp]: "usage_ok zero_usage"
  by (simp add: usage_ok_iff zero_usage_def)

lemma usage_plus_ok:
  assumes "usage_ok a" "usage_ok b"
  shows "\<exists>c. usage_plus a b = Inr c \<and> usage_ok c \<and> (\<forall>d. amount c d = amount a d + amount b d)"
proof -
  have "usage_ok \<lparr>amount = \<lambda>d. amount a d + amount b d,
      allow_independent_total = allow_independent_total a \<or> allow_independent_total b\<rparr>"
    using assms by (auto simp: usage_ok_iff)
  then show ?thesis by (simp add: usage_plus_def mk_usage_ok)
qed

lemma usage_plus_Inr:
  "usage_plus a b = Inr c \<Longrightarrow> usage_ok c \<and> (\<forall>d. amount c d = amount a d + amount b d)"
  by (auto simp: usage_plus_def dest: mk_usage_Inr)

lemma usage_minus_Inr:
  "usage_minus a b = Inr c \<Longrightarrow> usage_ok c \<and> (\<forall>d. amount c d = amount a d - amount b d)"
  by (auto simp: usage_minus_def dest: mk_usage_Inr)

lemma sum_usages_ok:
  assumes "usage_ok acc" "\<forall>u \<in> set us. usage_ok u"
  shows "\<exists>r. sum_usages acc us = Inr r \<and> usage_ok r \<and>
           (\<forall>d. amount r d = amount acc d + sum_list (map (\<lambda>u. amount u d) us))"
  using assms
proof (induction us arbitrary: acc)
  case Nil
  then show ?case by simp
next
  case (Cons u us)
  then obtain v where v: "usage_plus acc u = Inr v" "usage_ok v"
      "\<forall>d. amount v d = amount acc d + amount u d"
    using usage_plus_ok [of acc u] by auto
  with Cons.IH [of v] Cons.prems show ?case by (auto simp: algebra_simps)
qed

lemma mk_usage_nonneg [simp]:
  "\<forall>d. 0 \<le> f d \<Longrightarrow> mk_usage f True = Inr \<lparr>amount = f, allow_independent_total = True\<rparr>"
  by (rule mk_usage_ok) (simp add: usage_ok_iff)

section \<open>The ledger invariant and the amount charged\<close>

definition ledger_ok :: "ledger \<Rightarrow> bool" where
  "ledger_ok l \<longleftrightarrow>
     usage_ok (committed l) \<and>
     wf_dict (reservations l) \<and>
     (\<forall>p \<in> set (reservations l). reservation_id (snd p) = fst p \<and> usage_ok (reserved_usage (snd p))) \<and>
     wf_dict (envelopes l) \<and> (\<forall>p \<in> set (envelopes l). usage_ok (snd p)) \<and>
     wf_dict (delegated l) \<and> snd ` set (delegated l) \<subseteq> fst ` set (envelopes l)"

text \<open>What a dimension is charged with: settled usage, live reservations, open envelopes.\<close>

definition charge :: "ledger \<Rightarrow> dimension \<Rightarrow> int" where
  "charge l d = amount (committed l) d
     + dict_sum (\<lambda>r. amount (reserved_usage r) d) (reservations l)
     + dict_sum (\<lambda>u. amount u d) (envelopes l)"

definition within_limits :: "ledger \<Rightarrow> bool" where
  "within_limits l \<longleftrightarrow> (\<forall>d m. limit_of (budget l) d = Some m \<longrightarrow> charge l d \<le> m)"

lemma ledger_ok_new [simp]: "ledger_ok (new_ledger b t)"
  by (simp add: ledger_ok_def new_ledger_def)

lemma budget_new [simp]: "budget (new_ledger b t) = b"
  by (simp add: new_ledger_def)

lemma charge_new [simp]: "charge (new_ledger b t) d = 0"
  by (simp add: charge_def new_ledger_def zero_usage_def)

lemma reserved_ok:
  assumes "ledger_ok l"
  shows "\<exists>r. reserved l = Inr r \<and> usage_ok r \<and>
           (\<forall>d. amount (committed l) d + amount r d = charge l d)"
proof -
  have "\<forall>u \<in> set (map (reserved_usage \<circ> snd) (reservations l) @ map snd (envelopes l)). usage_ok u"
    using assms by (auto simp: ledger_ok_def)
  from sum_usages_ok [OF zero_usage_ok this] show ?thesis
    by (fastforce simp: reserved_def charge_def dict_sum_def zero_usage_def comp_def)
qed

lemma snapshot_ok:
  assumes "ledger_ok l"
  shows "\<exists>snap. snapshot_locked l env = Inr snap \<and> sn_budget snap = budget l \<and>
     sn_remaining_time snap = remaining_time l env \<and>
     (\<forall>d. amount (committed l) d + amount (sn_reserved snap) d = charge l d) \<and>
     (\<forall>d. amount (sn_remaining snap) d =
        (case limit_of (budget l) d of None \<Rightarrow> 0 | Some m \<Rightarrow> max 0 (m - charge l d)))"
proof -
  obtain r where r: "reserved l = Inr r" and c: "\<And>d. charge l d = amount (committed l) d + amount r d"
    using reserved_ok [OF assms] by force
  have "\<forall>d. 0 \<le> remaining_amount l r d"
    by (simp add: remaining_amount_def split: option.split)
  then show ?thesis
    by (auto simp: snapshot_locked_def r Let_def c remaining_amount_def diff_diff_eq
        split: option.splits)
qed

section \<open>Effect of each operation\<close>

text \<open>An operation that raised without touching the ledger is the remaining case everywhere.\<close>

lemma reserve_root:
  assumes "ledger_ok l" and "reserve l u ty st None rid env = (Inr r, l')"
  shows "l' = l\<lparr>reservations := AList.update rid r (reservations l)\<rparr> \<and>
         reservation_id r = rid \<and> reserved_usage r = u \<and>
         (\<forall>d m. limit_of (budget l) d = Some m \<longrightarrow> charge l d + amount u d \<le> m)"
proof -
  obtain snap where snap: "snapshot_locked l env = Inr snap"
      "\<And>d. amount (committed l) d + amount (sn_reserved snap) d = charge l d"
    using snapshot_ok [OF assms(1)] by blast
  from assms(2) show ?thesis
    by (auto simp: reserve_def snap Let_def guard_simps not_less
        split: if_splits option.splits)
qed

lemma reserve_delegated:
  assumes "ledger_ok l" and "reserve l u ty st (Some did) rid env = (Inr r, l')"
  shows "\<exists>a left. map_of (envelopes l) did = Some a \<and> usage_ok left \<and>
         (\<forall>d. amount left d = amount a d - amount u d) \<and>
         reservation_id r = rid \<and> reserved_usage r = u \<and>
         l' = l\<lparr>envelopes := AList.update did left (envelopes l),
                delegated := AList.update rid did (delegated l),
                reservations := AList.update rid r (reservations l)\<rparr>"
  using snapshot_ok [OF assms(1)] assms(2)
  by (auto simp: reserve_def Let_def dest!: usage_minus_Inr split: if_splits option.splits sum.splits)

lemma reserve_Inl: "reserve l u ty st did rid env = (Inl e, l') \<Longrightarrow> l' = l"
  by (auto simp: reserve_def Let_def split: if_splits option.splits sum.splits)

lemma reserve_ok [runtime_inv]:
  assumes "ledger_ok l" "usage_ok u" "map_of (reservations l) rid = None"
      and "reserve l u ty st did rid env = (res, l')"
  shows "ledger_ok l' \<and> budget l' = budget l \<and>
         (\<forall>d. charge l' d = (case did of None \<Rightarrow> if isl res then charge l d else charge l d + amount u d
                                  | Some _ \<Rightarrow> charge l d))"
proof (cases res)
  case (Inl e)
  with assms show ?thesis by (auto dest: reserve_Inl split: option.splits)
next
  case (Inr r)
  show ?thesis
  proof (cases did)
    case None
    with assms Inr reserve_root [of l u ty st rid env r l'] show ?thesis
      by (auto simp: ledger_ok_def charge_def dict_simps)
  next
    case (Some i)
    with assms Inr obtain a left where
        a: "map_of (envelopes l) i = Some a" "usage_ok left"
           "\<And>d. amount left d = amount a d - amount u d"
           "reservation_id r = rid" "reserved_usage r = u"
      and l': "l' = l\<lparr>envelopes := AList.update i left (envelopes l),
                delegated := AList.update rid i (delegated l),
                reservations := AList.update rid r (reservations l)\<rparr>"
      using reserve_delegated [of l u ty st i rid env r l'] by blast
    have "ledger_ok l'"
      using assms(1,2) a unfolding l' by (auto simp: ledger_ok_def dict_simps)
    with assms(3) a Some show ?thesis by (simp add: l' charge_def dict_simps)
  qed
qed

lemma reserve_within:
  assumes "ledger_ok l" "usage_ok u" "map_of (reservations l) rid = None"
      and "reserve l u ty st did rid env = (res, l')" and "within_limits l"
  shows "within_limits l'"
proof (cases "did = None \<and> \<not> isl res")
  case True
  then obtain r where r: "res = Inr r" by (cases res) auto
  from True r assms(4) have "reserve l u ty st None rid env = (Inr r, l')" by simp
  from reserve_root [OF assms(1) this] reserve_ok [OF assms(1-4)] True show ?thesis
    by (simp add: within_limits_def)
next
  case False
  then have "\<forall>d. charge l' d = charge l d"
    using reserve_ok [OF assms(1-4)] by (auto split: option.splits)
  with reserve_ok [OF assms(1-4)] assms(5) show ?thesis by (simp add: within_limits_def)
qed

lemma allocate_ok [runtime_inv]:
  assumes "ledger_ok l" "usage_ok u" and "allocate_delegation l did u env = (res, l')"
  shows "ledger_ok l' \<and> budget l' = budget l \<and> (within_limits l \<longrightarrow> within_limits l')"
proof (cases "l' = l")
  case True
  with assms show ?thesis by simp
next
  case False
  obtain snap where snap: "snapshot_locked l env = Inr snap"
      "\<And>d. amount (sn_remaining snap) d =
        (case limit_of (budget l) d of None \<Rightarrow> 0 | Some m \<Rightarrow> max 0 (m - charge l d))"
    using snapshot_ok [OF assms(1)] by blast
  from False assms(3) have new: "map_of (envelopes l) did = None"
      and l': "l' = l\<lparr>envelopes := AList.update did u (envelopes l)\<rparr>"
      and fits: "\<And>d m. limit_of (budget l) d = Some m \<Longrightarrow> amount u d \<le> max 0 (m - charge l d)"
    by (auto simp: allocate_delegation_def snap guard_simps not_less
        split: if_splits option.splits)
  have "ledger_ok l'"
    using assms(1,2) unfolding l' by (auto simp: ledger_ok_def dict_simps)
  moreover have c: "charge l' d = charge l d + amount u d" for d
    by (simp add: l' charge_def dict_simps new)
  have "within_limits l'" if w: "within_limits l"
    unfolding within_limits_def
  proof (intro allI impI)
    fix d m
    assume m: "limit_of (budget l') d = Some m"
    then have "limit_of (budget l) d = Some m" by (simp add: l')
    with fits [of d m] w show "charge l' d \<le> m"
      by (fastforce simp: c within_limits_def)
  qed
  ultimately show ?thesis by (simp add: l')
qed

lemma ledger_ok_envelopes:
  "ledger_ok l \<Longrightarrow> wf_dict e \<Longrightarrow> \<forall>p \<in> set e. usage_ok (snd p) \<Longrightarrow>
     snd ` set (delegated l) \<subseteq> fst ` set e \<Longrightarrow> ledger_ok (l\<lparr>envelopes := e\<rparr>)"
  by (simp add: ledger_ok_def)

lemma release_delegation_ok [runtime_inv]:
  assumes "ledger_ok l" and "release_delegation l did = (res, l')"
  shows "ledger_ok l' \<and> budget l' = budget l \<and> (\<forall>d. charge l' d \<le> charge l d)"
proof (cases "did \<in> snd ` set (delegated l)")
  case True
  with assms show ?thesis by (simp add: release_delegation_def)
next
  case False
  with assms(2) have l': "l' = l\<lparr>envelopes := AList.delete did (envelopes l)\<rparr>"
    by (simp add: release_delegation_def)
  have "ledger_ok l'"
    unfolding l'
  proof (rule ledger_ok_envelopes [OF assms(1)])
    show "snd ` set (delegated l) \<subseteq> fst ` set (AList.delete did (envelopes l))"
      using assms(1) False by (auto simp: ledger_ok_def)
    show "\<forall>p \<in> set (AList.delete did (envelopes l)). usage_ok (snd p)"
      using assms(1) by (auto simp: ledger_ok_def set_delete)
  qed (use assms(1) in \<open>simp add: ledger_ok_def\<close>)
  moreover have "charge l' d \<le> charge l d" for d
    using assms(1)
    by (auto simp: l' charge_def dict_simps ledger_ok_def usage_ok_iff
        dest!: map_of_SomeD split: option.splits)
  ultimately show ?thesis by (simp add: l')
qed

lemma stored_usage_ok:
  "ledger_ok l \<Longrightarrow> map_of (reservations l) k = Some r \<Longrightarrow> usage_ok (reserved_usage r) \<and> reservation_id r = k"
  by (auto simp: ledger_ok_def dest!: map_of_SomeD)

lemma envelope_ok: "ledger_ok l \<Longrightarrow> map_of (envelopes l) k = Some u \<Longrightarrow> usage_ok u"
  by (auto simp: ledger_ok_def dest!: map_of_SomeD)

lemma delegated_envelope:
  "ledger_ok l \<Longrightarrow> map_of (delegated l) k = Some did \<Longrightarrow> \<exists>u. map_of (envelopes l) did = Some u"
  by (metis (no_types, lifting) key_iff ledger_ok_def map_of_values not_None_eq subsetD)

lemma committed_ok: "ledger_ok l \<Longrightarrow> usage_ok (committed l)"
  by (simp add: ledger_ok_def)

lemma usage_ok_nonneg: "usage_ok u \<Longrightarrow> 0 \<le> amount u d"
  by (simp add: usage_ok_iff)

lemma drop_reservation_ok:
  assumes "ledger_ok l"
  shows "ledger_ok (l\<lparr>reservations := AList.delete k (reservations l)\<rparr>)"
    and "charge (l\<lparr>reservations := AList.delete k (reservations l)\<rparr>) d =
           charge l d - (case map_of (reservations l) k of None \<Rightarrow> 0
                         | Some r \<Rightarrow> amount (reserved_usage r) d)"
  using assms by (auto simp: ledger_ok_def charge_def dict_simps)

lemma release_cases:
  assumes "ledger_ok l" and "release l r env = (res, l')"
  obtains
    (mismatch) "map_of (reservations l) (reservation_id r) \<noteq> Some r" "res = Inl ReservationUnknown"
      "l' = l\<lparr>reservations := AList.delete (reservation_id r) (reservations l)\<rparr>"
  | (root) "map_of (reservations l) (reservation_id r) = Some r"
      "map_of (delegated l) (reservation_id r) = None" "res = snapshot_locked l' env"
      "l' = l\<lparr>reservations := AList.delete (reservation_id r) (reservations l),
              delegated := AList.delete (reservation_id r) (delegated l)\<rparr>"
  | (delegate) did a gain where "map_of (reservations l) (reservation_id r) = Some r"
      "map_of (delegated l) (reservation_id r) = Some did" "map_of (envelopes l) did = Some a"
      "usage_ok gain" "\<And>d. amount gain d = amount a d + amount (reserved_usage r) d"
      "res = snapshot_locked l' env"
      "l' = l\<lparr>reservations := AList.delete (reservation_id r) (reservations l),
              delegated := AList.delete (reservation_id r) (delegated l),
              envelopes := AList.update did gain (envelopes l)\<rparr>"
proof (cases "map_of (reservations l) (reservation_id r) = Some r")
  case False
  with assms(2) show thesis by (intro mismatch) (auto simp: release_def)
next
  case stored: True
  show thesis
  proof (cases "map_of (delegated l) (reservation_id r)")
    case None
    with stored assms(2) show thesis by (intro root) (auto simp: release_def Let_def)
  next
    case (Some did)
    then obtain a where a: "map_of (envelopes l) did = Some a"
      using delegated_envelope [OF assms(1)] by blast
    then obtain gain where b: "usage_plus a (reserved_usage r) = Inr gain"
        "usage_ok gain" "\<And>d. amount gain d = amount a d + amount (reserved_usage r) d"
      using usage_plus_ok [OF envelope_ok [OF assms(1) a]] stored_usage_ok [OF assms(1) stored] by blast
    from stored Some a b assms(2) show thesis
      by (intro delegate [of did a gain]) (auto simp: release_def Let_def)
  qed
qed

lemma release_ok [runtime_inv]:
  assumes "ledger_ok l" and "release l r env = (res, l')"
  shows "ledger_ok l' \<and> budget l' = budget l \<and> (\<forall>d. charge l' d \<le> charge l d)"
  using assms
proof (cases rule: release_cases)
  case mismatch
  with drop_reservation_ok [OF assms(1), of "reservation_id r"] stored_usage_ok [OF assms(1)]
  show ?thesis by (auto simp: usage_ok_nonneg split: option.splits)
next
  case root
  have "ledger_ok l'"
    using assms(1) unfolding root(4) by (auto simp: ledger_ok_def dict_simps)
  with root stored_usage_ok [OF assms(1) root(1)] assms(1) show ?thesis
    by (auto simp: charge_def dict_simps ledger_ok_def usage_ok_nonneg)
next
  case (delegate did a gain)
  have "ledger_ok l'"
    using assms(1) delegate(4) unfolding delegate(7) by (auto simp: ledger_ok_def dict_simps)
  with delegate assms(1) show ?thesis
    by (simp add: charge_def dict_simps ledger_ok_def)
qed

lemma commit_cases:
  assumes "ledger_ok l" "\<forall>a. actual_usage = Some a \<longrightarrow> usage_ok a"
      and "commit l r actual_usage env = (res, l')"
      and act: "act = (case actual_usage of Some a \<Rightarrow> a | None \<Rightarrow> reserved_usage r)"
  obtains
    (mismatch) "map_of (reservations l) (reservation_id r) \<noteq> Some r" "res = Inl ReservationUnknown"
      "l' = l"
  | (settled) c where "map_of (reservations l) (reservation_id r) = Some r"
      "map_of (delegated l) (reservation_id r) = None" "usage_ok c"
      "\<And>d. amount c d = amount (committed l) d + amount act d"
      "\<And>d m. limit_of (budget l) d = Some m \<Longrightarrow>
         charge l d - amount (reserved_usage r) d + amount act d \<le> m"
      "res = snapshot_locked l' env"
      "l' = l\<lparr>reservations := AList.delete (reservation_id r) (reservations l), committed := c\<rparr>"
  | (refused) d x where "map_of (reservations l) (reservation_id r) = Some r"
      "map_of (delegated l) (reservation_id r) = None"
      "res = Inl (BudgetExceeded (Dim d) (amount act d) x)"
      "\<exists>m. limit_of (budget l) d = Some m \<and>
         m < charge l d - amount (reserved_usage r) d + amount act d"
      "l' = l\<lparr>reservations := AList.update (reservation_id r) r
                 (AList.delete (reservation_id r) (reservations l))\<rparr>"
  | (delegate) did a left c where "map_of (reservations l) (reservation_id r) = Some r"
      "map_of (delegated l) (reservation_id r) = Some did" "map_of (envelopes l) did = Some a"
      "usage_ok left" "usage_ok c"
      "\<And>d. amount left d = max 0 (amount a d + amount (reserved_usage r) d - amount act d)"
      "\<And>d. amount c d = amount (committed l) d + amount act d"
      "res = (if \<exists>d. amount act d > amount a d + amount (reserved_usage r) d
              then Inl DELEGATION_BUDGET_EXCEEDED else snapshot_locked l' env)"
      "l' = l\<lparr>delegated := AList.delete (reservation_id r) (delegated l),
              envelopes := AList.update did left (envelopes l),
              reservations := AList.delete (reservation_id r) (reservations l),
              committed := c\<rparr>"
proof (cases "map_of (reservations l) (reservation_id r) = Some r")
  case False
  with assms(3) show thesis by (intro mismatch) (auto simp: commit_def)
next
  case stored: True
  note r_ok = stored_usage_ok [OF assms(1) stored]
  have act_ok: "usage_ok act"
    using assms(2) r_ok by (auto simp: act split: option.splits)
  obtain c where c: "usage_plus (committed l) act = Inr c" "usage_ok c"
      "\<And>d. amount c d = amount (committed l) d + amount act d"
    using usage_plus_ok [OF committed_ok [OF assms(1)] act_ok] by blast
  show thesis
  proof (cases "map_of (delegated l) (reservation_id r)")
    case (Some did)
    then obtain a where a: "map_of (envelopes l) did = Some a"
      using delegated_envelope [OF assms(1)] by blast
    then obtain gain where b: "usage_plus a (reserved_usage r) = Inr gain"
        "usage_ok gain" "\<And>d. amount gain d = amount a d + amount (reserved_usage r) d"
      using usage_plus_ok [OF envelope_ok [OF assms(1) a]] r_ok by blast
    show thesis
      by (rule delegate [of did a "\<lparr>amount = \<lambda>d. max 0 (amount gain d - amount act d),
            allow_independent_total = True\<rparr>" c])
         (use stored Some a b c assms(3) in
           \<open>auto simp: commit_def commit_delegated_def Let_def act usage_ok_iff split: if_splits\<close>)
  next
    case None
    let ?l1 = "l\<lparr>reservations := AList.delete (reservation_id r) (reservations l)\<rparr>"
    have ok1: "ledger_ok ?l1" by (rule drop_reservation_ok(1) [OF assms(1)])
    have ch1: "charge ?l1 d = charge l d - amount (reserved_usage r) d" for d
      using drop_reservation_ok(2) [OF assms(1), of "reservation_id r"] stored by simp
    obtain snap where snap: "snapshot_locked ?l1 env = Inr snap"
        "\<And>d. amount (committed l) d + amount (sn_reserved snap) d =
              charge l d - amount (reserved_usage r) d"
      using snapshot_ok [OF ok1, of env] ch1 by auto
    let ?bad = "\<lambda>d. case limit_of (budget l) d of None \<Rightarrow> None
                 | Some m \<Rightarrow> if amount (committed l) d + amount (sn_reserved snap) d
                              + amount act d > m then Some d else None"
    show thesis
    proof (cases "first_some ?bad dimensions")
      case fits: None
      show thesis
        by (rule settled [of c])
           (use stored None snap c fits assms(3) in
             \<open>auto simp: commit_def Let_def act [symmetric] guard_simps not_less
                split: if_splits option.splits\<close>)
    next
      case (Some d)
      then have d: "\<exists>m. limit_of (budget l) d = Some m \<and>
          m < charge l d - amount (reserved_usage r) d + amount act d"
        using snap(2) by (auto dest!: first_some_SomeD split: option.splits if_splits)
      have "ledger_ok (?l1\<lparr>reservations := AList.update (reservation_id r) r
              (AList.delete (reservation_id r) (reservations l))\<rparr>)"
        using assms(1) r_ok by (auto simp: ledger_ok_def dict_simps)
      then obtain snap2 where snap2: "snapshot_locked (l\<lparr>reservations :=
            AList.update (reservation_id r) r
              (AList.delete (reservation_id r) (reservations l))\<rparr>) env = Inr snap2"
        using snapshot_ok by fastforce
      show thesis
        by (rule refused [of d "amount (sn_remaining snap2) d"])
           (use stored None Some snap snap2 d assms(3) in
             \<open>auto simp: commit_def Let_def act [symmetric]\<close>)
    qed
  qed
qed

lemma commit_ok [runtime_inv]:
  assumes "ledger_ok l" "\<forall>a. actual_usage = Some a \<longrightarrow> usage_ok a"
      and "commit l r actual_usage env = (res, l')"
  shows "ledger_ok l' \<and> budget l' = budget l \<and>
         (res \<noteq> Inl DELEGATION_BUDGET_EXCEEDED \<and> within_limits l \<longrightarrow> within_limits l')"
  using assms refl
proof (cases rule: commit_cases)
  case mismatch
  with assms(1) show ?thesis by simp
next
  case (settled c)
  let ?act = "case actual_usage of Some a \<Rightarrow> a | None \<Rightarrow> reserved_usage r"
  have "ledger_ok l'"
    using assms(1) settled(3) unfolding settled(7) by (auto simp: ledger_ok_def dict_simps)
  moreover have "charge l' d = charge l d - amount (reserved_usage r) d + amount ?act d" for d
    using assms(1) settled(1,4) unfolding settled(7) by (simp add: charge_def dict_simps ledger_ok_def)
  ultimately show ?thesis
    using settled(5) by (auto simp: within_limits_def settled(7))
next
  case (refused d x)
  have "ledger_ok l'"
    using assms(1) stored_usage_ok [OF assms(1) refused(1)] unfolding refused(5)
    by (auto simp: ledger_ok_def dict_simps)
  moreover have "charge l' k = charge l k" for k
    using assms(1) refused(1) unfolding refused(5) by (simp add: charge_def dict_simps ledger_ok_def)
  ultimately show ?thesis by (auto simp: within_limits_def refused(5))
next
  case (delegate did a left c)
  let ?act = "case actual_usage of Some a \<Rightarrow> a | None \<Rightarrow> reserved_usage r"
  have "ledger_ok l'"
    using assms(1) delegate(4,5) unfolding delegate(9) by (auto simp: ledger_ok_def dict_simps)
  moreover have "charge l' d = charge l d + amount left d -
      (amount a d + amount (reserved_usage r) d - amount ?act d)" for d
    using assms(1) delegate(1,3,7) unfolding delegate(9)
    by (simp add: charge_def dict_simps ledger_ok_def)
  ultimately show ?thesis
    using delegate(6,8) by (fastforce simp: within_limits_def delegate(9) max_def not_less split: if_splits)
qed

lemma release_mismatch_charge:
  assumes "ledger_ok l" "map_of (reservations l) (reservation_id r) = Some stored" "stored \<noteq> r"
      and "release l r env = (res, l')"
  shows "res = Inl ReservationUnknown \<and> map_of (reservations l') (reservation_id r) = None \<and>
         (\<forall>d. charge l' d = charge l d - amount (reserved_usage stored) d)"
  using assms(1,4)
proof (cases rule: release_cases)
  case mismatch
  with drop_reservation_ok(2) [OF assms(1), of "reservation_id r"] assms(2) show ?thesis by simp
qed (use assms in auto)

section \<open>Histories of a ledger\<close>

text \<open>
  Every call a client can make, with the two facts the code relies on: a usage object exists
  only if its constructor accepted it, and a fresh reservation id is not in use. The flag
  records whether a delegated commit has reported an overrun.
\<close>

inductive ledger_reach :: "run_budget \<Rightarrow> ledger \<Rightarrow> bool \<Rightarrow> bool" for b :: run_budget where
  reach_new: "ledger_reach b (new_ledger b t) False"
| reach_allocate: "ledger_reach b l o' \<Longrightarrow> usage_ok u \<Longrightarrow>
    allocate_delegation l did u env = (res, l') \<Longrightarrow> ledger_reach b l' o'"
| reach_release_delegation: "ledger_reach b l o' \<Longrightarrow>
    release_delegation l did = (res', l') \<Longrightarrow> ledger_reach b l' o'"
| reach_reserve: "ledger_reach b l o' \<Longrightarrow> usage_ok u \<Longrightarrow> map_of (reservations l) rid = None \<Longrightarrow>
    reserve l u ty st del rid env = (rres, l') \<Longrightarrow> ledger_reach b l' o'"
| reach_commit: "ledger_reach b l o' \<Longrightarrow> \<forall>a. actual = Some a \<longrightarrow> usage_ok a \<Longrightarrow>
    commit l r actual env = (cres, l') \<Longrightarrow>
    ledger_reach b l' (o' \<or> cres = Inl DELEGATION_BUDGET_EXCEEDED)"
| reach_release: "ledger_reach b l o' \<Longrightarrow> release l r env = (sres, l') \<Longrightarrow> ledger_reach b l' o'"

lemma ledger_reach_inv:
  assumes "ledger_reach b l over" and "run_budget_check b = None"
  shows "ledger_ok l \<and> budget l = b \<and> (\<not> over \<longrightarrow> within_limits l)"
  using assms(1)
proof (induction rule: ledger_reach.induct)
  case (reach_new t)
  from assms(2) have "\<And>d m. limit_of b d = Some m \<Longrightarrow> 0 \<le> m"
    by (auto simp: run_budget_check_def not_less split: if_splits)
  then show ?case by (auto simp: within_limits_def)
next
  case (reach_allocate l o' u did env res l')
  then show ?case using allocate_ok [of l u did env res l'] by auto
next
  case (reach_release_delegation l o' did res' l')
  then show ?case using release_delegation_ok [of l did res' l']
    by (auto simp: within_limits_def intro: order_trans)
next
  case (reach_reserve l o' u rid ty st del env rres l')
  then have "within_limits l \<longrightarrow> within_limits l'"
    using reserve_within [of l u rid ty st del env rres l'] by simp
  with reach_reserve reserve_ok [of l u rid ty st del env rres l'] show ?case by simp
next
  case (reach_commit l o' actual r env cres l')
  then show ?case using commit_ok [of l actual r env cres l'] by auto
next
  case (reach_release l o' r env sres l')
  then show ?case using release_ok [of l r env sres l']
    by (auto simp: within_limits_def intro: order_trans)
qed

section \<open>Properties\<close>

text \<open>
  C4. No finite budget is ever exceeded: after any history of allocations, reservations,
  commits and releases in which no delegated call reported more usage than its envelope
  held, settled usage plus everything reserved stays within every finite limit.
\<close>

theorem budget_never_exceeded:
  assumes "run_budget_check b = None" and "ledger_reach b l False" and "limit_of b d = Some m"
  shows "0 \<le> amount (committed l) d \<and> amount (committed l) d \<le> charge l d \<and> charge l d \<le> m"
proof -
  have inv: "ledger_ok l" "budget l = b" "within_limits l"
    using ledger_reach_inv [OF assms(2,1)] by auto
  have "0 \<le> dict_sum (\<lambda>r. amount (reserved_usage r) d) (reservations l)"
       "0 \<le> dict_sum (\<lambda>u. amount u d) (envelopes l)"
    using inv(1) by (auto intro!: dict_sum_nonneg simp: ledger_ok_def usage_ok_nonneg)
  with inv assms(3) show ?thesis
    by (auto simp: charge_def within_limits_def usage_ok_nonneg committed_ok)
qed

definition sample_budget :: run_budget where
  "sample_budget = \<lparr>limit_of = (\<lambda>d. if d = step_starts then Some 3 else None),
     max_elapsed_seconds = None, max_concurrency = None\<rparr>"

definition sample_reading :: reading where
  "sample_reading = \<lparr>clock_now = 0, wall_now = DT (Some 0) 0, deadline_remaining = None\<rparr>"

definition two_steps :: usage where
  "two_steps = zero_usage\<lparr>amount := (\<lambda>_. 0)(step_starts := 2)\<rparr>"

definition sample_reservation :: "string \<Rightarrow> reservation" where
  "sample_reservation i = \<lparr>reservation_id = i, reservation_type = ''step_start'',
     reservation_step_id = None, reserved_usage = two_steps,
     reservation_created_at = DT (Some 0) 0\<rparr>"

lemma two_steps_ok [simp]: "usage_ok two_steps"
  by (simp add: usage_ok_iff two_steps_def zero_usage_def)

lemmas sample_defs = sample_budget_def sample_reading_def two_steps_def sample_reservation_def
  new_ledger_def zero_usage_def

lemma sample_reserve:
  "reserve (new_ledger sample_budget 0) two_steps ''step_start'' None None ''r'' sample_reading =
     (Inr (sample_reservation ''r''),
      (new_ledger sample_budget 0)\<lparr>reservations := [(''r'', sample_reservation ''r'')]\<rparr>)"
  by (simp add: reserve_def snapshot_locked_def reserved_def remaining_time_def Let_def
      sample_defs dimensions_def remaining_amount_def usage_ok_iff)

theorem budget_never_exceeded_witness:
  "charge ((new_ledger sample_budget 0)\<lparr>reservations := [(''r'', sample_reservation ''r'')]\<rparr>)
     step_starts \<le> 3"
proof -
  have "ledger_reach sample_budget
      ((new_ledger sample_budget 0)\<lparr>reservations := [(''r'', sample_reservation ''r'')]\<rparr>) False"
    by (rule reach_reserve [OF reach_new two_steps_ok _ sample_reserve]) (simp add: new_ledger_def)
  moreover have "run_budget_check sample_budget = None"
    by (simp add: run_budget_check_def sample_budget_def)
  ultimately show ?thesis
    using budget_never_exceeded [of sample_budget _ step_starts 3] by (simp add: sample_budget_def)
qed






definition sample_delegated :: ledger where
  "sample_delegated = (new_ledger sample_budget 0)
     \<lparr>reservations := [(''r'', sample_reservation ''r'')], envelopes := [(''a'', zero_usage)],
      delegated := [(''r'', ''a'')]\<rparr>"


text \<open>
  C20. A release that is refused still forgets the reservation: when the reservation handed to
  \<^verbatim>\<open>release\<close> differs from the stored one with the same id, the call raises, but the stored
  reservation is gone afterwards, its amount is no longer charged, and an envelope it was
  drawn from can never be released again.
\<close>

theorem release_mismatch_forgets:
  assumes "ledger_ok l" and "map_of (reservations l) (reservation_id r) = Some stored"
      and "stored \<noteq> r" and "release l r env = (res, l')"
  shows "res = Inl ReservationUnknown \<and> map_of (reservations l') (reservation_id r) = None \<and>
         (\<forall>d. charge l' d = charge l d - amount (reserved_usage stored) d) \<and>
         (\<forall>did. map_of (delegated l) (reservation_id r) = Some did \<longrightarrow>
            release_delegation l' did = (Inl DELEGATION_INFLIGHT, l'))"
proof -
  from assms(1,4) have "delegated l' = delegated l"
    by (cases rule: release_cases) (use assms(2,3) in auto)
  with release_mismatch_charge [OF assms] map_of_values [of "delegated l"] show ?thesis
    by (simp add: release_delegation_def)
qed

theorem release_mismatch_forgets_witness:
  "map_of (reservations (snd (release ((new_ledger sample_budget 0)
       \<lparr>reservations := [(''r'', sample_reservation ''r'')]\<rparr>)
       (sample_reservation ''r'' \<lparr>reservation_type := ''tool''\<rparr>) sample_reading))) ''r'' = None"
proof -
  let ?l = "(new_ledger sample_budget 0)\<lparr>reservations := [(''r'', sample_reservation ''r'')]\<rparr>"
  let ?r = "sample_reservation ''r'' \<lparr>reservation_type := ''tool''\<rparr>"
  obtain res l' where rel: "release ?l ?r sample_reading = (res, l')" by fastforce
  have "ledger_ok ?l"
    using reserve_ok [OF ledger_ok_new two_steps_ok _ sample_reserve] by (simp add: new_ledger_def)
  from release_mismatch_forgets [OF this _ _ rel, of "sample_reservation ''r''"] rel show ?thesis
    by (simp add: sample_reservation_def)
qed

lemma mk_envelopes_ok:
  "mk_envelopes es = Inr us \<Longrightarrow> map fst us = map fst es \<and> (\<forall>p \<in> set us. usage_ok (snd p))"
proof (induction es arbitrary: us)
  case Nil
  then show ?case by simp
next
  case (Cons p es)
  then obtain u us' where "mk_usage (snd p) True = Inr u" "mk_envelopes es = Inr us'"
      "us = (fst p, u) # us'"
    by (auto split: sum.splits)
  with Cons.IH [of us'] mk_usage_Inr [of "snd p" True u] show ?case by auto
qed

lemma fold_update_wf: "wf_dict d \<Longrightarrow> wf_dict (fold (\<lambda>(k, x). AList.update (f k) (g x)) xs d)"
  by (induction xs arbitrary: d) (auto split: prod.splits)

lemma durable_envelopes_wf: "wf_dict (durable_envelopes ops)"
  unfolding durable_envelopes_def by (rule fold_update_wf) simp

text \<open>
  C15. Recovery forgets no usage: a ledger rebuilt from durable state charges every dimension
  with exactly the settled plus the reserved usage that was recorded, whether or not part of
  it is held by open delegations, and it satisfies the ledger invariant.
\<close>

theorem from_durable_conservative:
  assumes "usage_ok c" and "usage_ok res" and "from_durable b c (Some res) ops t = Inr l"
  shows "ledger_ok l \<and> budget l = b \<and> (\<forall>d. charge l d = amount c d + amount res d)"
proof (cases "durable_envelopes ops = []")
  case True
  with assms(3) obtain c' where c': "usage_plus c res = Inr c'"
      and l: "l = (new_ledger b t)\<lparr>committed := c'\<rparr>"
    by (auto simp: from_durable_def split: sum.splits)
  from usage_plus_Inr [OF c'] show ?thesis
    by (simp add: l new_ledger_def ledger_ok_def charge_def)
next
  case False
  with assms(3) obtain us held spent c' where
      us: "mk_envelopes (durable_envelopes ops) = Inr us"
      and held: "sum_usages (zero_usage\<lparr>allow_independent_total := True\<rparr>) (map snd us) = Inr held"
      and spent: "usage_minus res held = Inr spent" and c': "usage_plus c spent = Inr c'"
      and l: "l = (new_ledger b t)\<lparr>committed := c', envelopes := us\<rparr>"
    by (auto simp: from_durable_def Let_def split: sum.splits)
  note us_ok = mk_envelopes_ok [OF us]
  have "usage_ok (zero_usage\<lparr>allow_independent_total := True\<rparr>)"
    by (simp add: usage_ok_iff zero_usage_def)
  from sum_usages_ok [OF this, of "map snd us"] us_ok held
  have "amount held d = dict_sum (\<lambda>u. amount u d) us" for d
    by (auto simp: dict_sum_def zero_usage_def comp_def)
  with usage_minus_Inr [OF spent] usage_plus_Inr [OF c'] us_ok durable_envelopes_wf [of ops]
  show ?thesis by (simp add: l new_ledger_def ledger_ok_def charge_def)
qed

theorem from_durable_conservative_witness:
  "\<exists>l. from_durable sample_budget two_steps (Some two_steps)
         [(''delegation:a'', \<lparr>op_kind = ''DELEGATION_ALLOCATION'', op_state = ''RESERVED'',
            op_unspent = (\<lambda>_. 0)(step_starts := 1)\<rparr>)] 0 = Inr l \<and> charge l step_starts = 4"
proof -
  have ok: "usage_ok \<lparr>amount = f, allow_independent_total = True\<rparr>" if "\<forall>d. 0 \<le> f d" for f
    using that by (simp add: usage_ok_iff)
  obtain l where l: "from_durable sample_budget two_steps (Some two_steps)
         [(''delegation:a'', \<lparr>op_kind = ''DELEGATION_ALLOCATION'', op_state = ''RESERVED'',
            op_unspent = (\<lambda>_. 0)(step_starts := 1)\<rparr>)] 0 = Inr l"
    by (simp add: from_durable_def durable_envelopes_def remove_prefix_def Let_def usage_plus_def
        usage_minus_def two_steps_def zero_usage_def)
  from from_durable_conservative [OF two_steps_ok two_steps_ok l] l show ?thesis
    by (simp add: two_steps_def)
qed

text \<open>
  A budgeted stream settles its reservation once: after it is closed, asking for more
  items or closing it again changes neither the stream nor the ledger.
\<close>

theorem stream_settles_once:
  assumes "stream_close s l actual env = (s1, l1)"
  shows "bs_closed s1 \<and> stream_close s1 l1 actual' env' = (s1, l1) \<and>
         stream_next s1 l1 (item :: 'a option) actual' env' = (None, s1, l1)"
  using assms by (auto simp: stream_close_def stream_next_def split: if_splits)

end
