(* ===== verification/Agent_State.thy ===== *)
theory Agent_State
  imports Runtime_Prelude
begin

text \<open>
  \<^verbatim>\<open>core/runtime/state.py\<close>: the state of one Run and of its Steps, the validation both
  carry, their serialisation, and the direct mutators. \<^verbatim>\<open>validate\<close> returns the first error
  it would raise. A mutator changes the object and validates afterwards, so it returns the
  changed state together with the error, if any. \<^verbatim>\<open>active_step_ids\<close> is a HOL set; which of
  the two messages about an invalid member is raised depends on Python's set order, and the
  model has one error for both. The payload of \<^verbatim>\<open>to_dict\<close> is a record whose keys may be
  missing; enum members are carried by their string values and timestamps as values.
\<close>

section \<open>Enumerations\<close>

datatype run_status = R_CREATED | R_RUNNING | R_SUCCEEDED | R_FAILED | R_CANCELLED

datatype step_status =
    S_PENDING | S_RUNNING | S_WAITING_FOR_APPROVAL | S_SUCCEEDED | S_FAILED | S_CANCELLED
  | S_BLOCKED | S_SKIPPED

datatype stop_reason =
    SR_COMPLETED | SR_UNHANDLED_ERROR | SR_DEADLINE_EXCEEDED | SR_USER_CANCELLED
  | SR_CLIENT_DISCONNECTED | SR_SYSTEM_SHUTDOWN | SR_MAX_STEPS_REACHED | SR_NO_ACTION
  | SR_REPEATED_ACTION | SR_BUDGET_EXHAUSTED | SR_PLANNING_FAILED

definition run_statuses :: "run_status list" where
  "run_statuses = [R_CREATED, R_RUNNING, R_SUCCEEDED, R_FAILED, R_CANCELLED]"

definition step_statuses :: "step_status list" where
  "step_statuses = [S_PENDING, S_RUNNING, S_WAITING_FOR_APPROVAL, S_SUCCEEDED, S_FAILED,
     S_CANCELLED, S_BLOCKED, S_SKIPPED]"

definition stop_reasons :: "stop_reason list" where
  "stop_reasons = [SR_COMPLETED, SR_UNHANDLED_ERROR, SR_DEADLINE_EXCEEDED, SR_USER_CANCELLED,
     SR_CLIENT_DISCONNECTED, SR_SYSTEM_SHUTDOWN, SR_MAX_STEPS_REACHED, SR_NO_ACTION,
     SR_REPEATED_ACTION, SR_BUDGET_EXHAUSTED, SR_PLANNING_FAILED]"

fun run_status_value :: "run_status \<Rightarrow> string" where
  "run_status_value R_CREATED = ''CREATED''"
| "run_status_value R_RUNNING = ''RUNNING''"
| "run_status_value R_SUCCEEDED = ''SUCCEEDED''"
| "run_status_value R_FAILED = ''FAILED''"
| "run_status_value R_CANCELLED = ''CANCELLED''"

fun step_status_value :: "step_status \<Rightarrow> string" where
  "step_status_value S_PENDING = ''PENDING''"
| "step_status_value S_RUNNING = ''RUNNING''"
| "step_status_value S_WAITING_FOR_APPROVAL = ''WAITING_FOR_APPROVAL''"
| "step_status_value S_SUCCEEDED = ''SUCCEEDED''"
| "step_status_value S_FAILED = ''FAILED''"
| "step_status_value S_CANCELLED = ''CANCELLED''"
| "step_status_value S_BLOCKED = ''BLOCKED''"
| "step_status_value S_SKIPPED = ''SKIPPED''"

fun stop_reason_value :: "stop_reason \<Rightarrow> string" where
  "stop_reason_value SR_COMPLETED = ''COMPLETED''"
| "stop_reason_value SR_UNHANDLED_ERROR = ''UNHANDLED_ERROR''"
| "stop_reason_value SR_DEADLINE_EXCEEDED = ''DEADLINE_EXCEEDED''"
| "stop_reason_value SR_USER_CANCELLED = ''USER_CANCELLED''"
| "stop_reason_value SR_CLIENT_DISCONNECTED = ''CLIENT_DISCONNECTED''"
| "stop_reason_value SR_SYSTEM_SHUTDOWN = ''SYSTEM_SHUTDOWN''"
| "stop_reason_value SR_MAX_STEPS_REACHED = ''MAX_STEPS_REACHED''"
| "stop_reason_value SR_NO_ACTION = ''NO_ACTION''"
| "stop_reason_value SR_REPEATED_ACTION = ''REPEATED_ACTION''"
| "stop_reason_value SR_BUDGET_EXHAUSTED = ''BUDGET_EXHAUSTED''"
| "stop_reason_value SR_PLANNING_FAILED = ''PLANNING_FAILED''"

text \<open>\<^verbatim>\<open>RunStatus(value)\<close> and its like: the member with that value, or an error.\<close>

definition run_status_of :: "string \<Rightarrow> run_status option" where
  "run_status_of v = find (\<lambda>s. run_status_value s = v) run_statuses"

definition step_status_of :: "string \<Rightarrow> step_status option" where
  "step_status_of v = find (\<lambda>s. step_status_value s = v) step_statuses"

definition stop_reason_of :: "string \<Rightarrow> stop_reason option" where
  "stop_reason_of v = find (\<lambda>s. stop_reason_value s = v) stop_reasons"

definition terminal_run :: "run_status \<Rightarrow> bool" where
  "terminal_run s \<longleftrightarrow> s \<in> {R_SUCCEEDED, R_FAILED, R_CANCELLED}"

definition terminal_step :: "step_status \<Rightarrow> bool" where
  "terminal_step s \<longleftrightarrow> s \<in> {S_SUCCEEDED, S_FAILED, S_CANCELLED, S_BLOCKED, S_SKIPPED}"

definition cancellation_stop :: "stop_reason \<Rightarrow> bool" where
  "cancellation_stop r \<longleftrightarrow> r \<in> {SR_USER_CANCELLED, SR_CLIENT_DISCONNECTED, SR_SYSTEM_SHUTDOWN}"

text \<open>Steps that a worker has started and not finished.\<close>

definition active_status :: "step_status \<Rightarrow> bool" where
  "active_status s \<longleftrightarrow> s \<in> {S_RUNNING, S_WAITING_FOR_APPROVAL}"

section \<open>Step and Run state\<close>

datatype state_error =
    UnsupportedStateVersion
  | StepIdEmpty | StepNameEmpty | NotUtc
  | StepStartedBeforeCreated | StepEndedBeforeCreated | StepEndedBeforeStarted
  | PendingStepTimes | RunningStepTimes | WaitingStepTimes | BlockedStepStarted
  | TerminalStepNotEnded | SucceededStepHasError | FailedStepNoError
  | RunIdEmpty | UpdatedBeforeCreated | LiveRunHasStopReason | TerminalRunNoStopReason
  | TerminalRunHasActiveSteps | SucceededRunReason | CancelledRunReason | FailedRunReason
  | StepIdNotUnique | StepKeyMismatch | ActiveStepInvalid | RunningStepsNotActive
  | RunIdMismatch | UnknownStepId | StatusRequired | StatusUnknown | StopReasonUnknown
  | TimestampRequired

record step_state =
  step_id :: string
  step_name :: string
  step_status :: step_status
  step_created_at :: py_datetime
  step_started_at :: "py_datetime option"
  step_ended_at :: "py_datetime option"
  step_error_code :: "string option"
  step_error_message :: "string option"

record agent_state =
  run_id :: string
  schema_version :: int
  run_status :: run_status
  created_at :: py_datetime
  updated_at :: py_datetime
  steps :: "(string, step_state) dict"
  active_step_ids :: "string set"
  run_stop_reason :: "stop_reason option"
  final_output :: "string option"
  run_error_code :: "string option"
  run_error_message :: "string option"

definition ensure_utc :: "py_datetime \<Rightarrow> state_error option" where
  "ensure_utc d = (if \<not> is_utc d then Some NotUtc else None)"

definition step_validate :: "step_state \<Rightarrow> state_error option" where
  "step_validate s = first_error
     ([(step_id s = [], StepIdEmpty),
       (step_name s = [], StepNameEmpty),
       (\<not> is_utc (step_created_at s), NotUtc)] @
      (case step_started_at s of
         None \<Rightarrow> []
       | Some t \<Rightarrow>
           [(\<not> is_utc t, NotUtc),
            (instant t < instant (step_created_at s), StepStartedBeforeCreated)]) @
      (case step_ended_at s of
         None \<Rightarrow> []
       | Some t \<Rightarrow>
           [(\<not> is_utc t, NotUtc),
            (instant t < instant (step_created_at s), StepEndedBeforeCreated),
            (some_and (step_started_at s) (\<lambda>b. instant t < instant b), StepEndedBeforeStarted)]) @
      [(step_status s = S_PENDING \<and> (step_started_at s \<noteq> None \<or> step_ended_at s \<noteq> None),
          PendingStepTimes),
       (step_status s = S_RUNNING \<and> (step_started_at s = None \<or> step_ended_at s \<noteq> None),
          RunningStepTimes),
       (step_status s = S_WAITING_FOR_APPROVAL \<and>
          (step_started_at s = None \<or> step_ended_at s \<noteq> None), WaitingStepTimes),
       (step_status s = S_BLOCKED \<and> step_started_at s \<noteq> None, BlockedStepStarted),
       (terminal_step (step_status s) \<and> step_ended_at s = None, TerminalStepNotEnded),
       (step_status s = S_SUCCEEDED \<and>
          (truthy (step_error_code s) \<or> truthy (step_error_message s)), SucceededStepHasError),
       (step_status s = S_FAILED \<and>
          \<not> (truthy (step_error_code s) \<or> truthy (step_error_message s)), FailedStepNoError)])"

definition validate :: "agent_state \<Rightarrow> state_error option" where
  "validate s = or_raise (first_error
     [(schema_version s \<noteq> 1, UnsupportedStateVersion),
      (run_id s = [], RunIdEmpty),
      (\<not> is_utc (created_at s), NotUtc),
      (\<not> is_utc (updated_at s), NotUtc),
      (instant (updated_at s) < instant (created_at s), UpdatedBeforeCreated),
      (run_status s \<in> {R_CREATED, R_RUNNING} \<and> run_stop_reason s \<noteq> None, LiveRunHasStopReason),
      (terminal_run (run_status s) \<and> run_stop_reason s = None, TerminalRunNoStopReason),
      (terminal_run (run_status s) \<and> active_step_ids s \<noteq> {}, TerminalRunHasActiveSteps),
      (run_status s = R_SUCCEEDED \<and> run_stop_reason s \<noteq> Some SR_COMPLETED, SucceededRunReason),
      (run_status s = R_CANCELLED \<and>
         \<not> (some_and (run_stop_reason s) (\<lambda>r. cancellation_stop r)), CancelledRunReason),
      (run_status s = R_FAILED \<and>
         (some_and (run_stop_reason s) (\<lambda>r. cancellation_stop r \<or> r = SR_COMPLETED)),
         FailedRunReason),
      (length (steps s) \<noteq> card (set (dict_keys (steps s))), StepIdNotUnique)])
   (or_raise
     (first_some (\<lambda>(k, st). if k \<noteq> step_id st then Some StepKeyMismatch else step_validate st)
        (steps s))
     (first_error
        [(\<exists>i \<in> active_step_ids s.
            case map_of (steps s) i of
              None \<Rightarrow> True
            | Some st \<Rightarrow> \<not> active_status (step_status st), ActiveStepInvalid),
         (set (map (step_id \<circ> snd) (filter (\<lambda>p. active_status (step_status (snd p))) (steps s)))
            \<noteq> active_step_ids s, RunningStepsNotActive)]))"

definition for_run_context :: "string \<Rightarrow> py_datetime \<Rightarrow> py_datetime \<Rightarrow> state_error + agent_state" where
  "for_run_context rid created updated =
     (let s = \<lparr>run_id = rid, schema_version = 1, run_status = R_CREATED, created_at = created,
               updated_at = updated, steps = [], active_step_ids = {}, run_stop_reason = None,
               final_output = None, run_error_code = None, run_error_message = None\<rparr>
      in case validate s of Some e \<Rightarrow> Inl e | None \<Rightarrow> Inr s)"

definition assert_matches_run_context :: "agent_state \<Rightarrow> string \<Rightarrow> state_error option" where
  "assert_matches_run_context s rid = (if run_id s \<noteq> rid then Some RunIdMismatch else None)"

section \<open>Serialisation\<close>

record step_payload =
  sp_step_id :: "string option"
  sp_name :: "string option"
  sp_status :: "string option"
  sp_created_at :: "py_datetime option"
  sp_started_at :: "py_datetime option"
  sp_ended_at :: "py_datetime option"
  sp_error_code :: "string option"
  sp_error_message :: "string option"

record state_payload =
  ap_schema_version :: "int option"
  ap_run_id :: "string option"
  ap_status :: "string option"
  ap_created_at :: "py_datetime option"
  ap_updated_at :: "py_datetime option"
  ap_steps :: "step_payload list"
  ap_active_step_ids :: "string list"
  ap_stop_reason :: "string option"
  ap_final_output :: "string option"
  ap_error_code :: "string option"
  ap_error_message :: "string option"

definition step_to_dict :: "step_state \<Rightarrow> state_error + step_payload" where
  "step_to_dict s =
     (case step_validate s of
        Some e \<Rightarrow> Inl e
      | None \<Rightarrow> Inr \<lparr>sp_step_id = Some (step_id s), sp_name = Some (step_name s),
                     sp_status = Some (step_status_value (step_status s)),
                     sp_created_at = Some (step_created_at s), sp_started_at = step_started_at s,
                     sp_ended_at = step_ended_at s, sp_error_code = step_error_code s,
                     sp_error_message = step_error_message s\<rparr>)"

text \<open>\<^verbatim>\<open>_parse_datetime\<close>: a missing required value and a value that is not UTC are errors.\<close>

definition parse_datetime ::
  "py_datetime option \<Rightarrow> bool \<Rightarrow> state_error + py_datetime option" where
  "parse_datetime v required =
     (case v of
        None \<Rightarrow> if required then Inl TimestampRequired else Inr None
      | Some d \<Rightarrow> (case ensure_utc d of Some e \<Rightarrow> Inl e | None \<Rightarrow> Inr (Some d)))"

definition opt_default :: "string option \<Rightarrow> string" where
  "opt_default v = (case v of None \<Rightarrow> [] | Some x \<Rightarrow> x)"

definition step_from_dict :: "step_payload \<Rightarrow> state_error + step_state" where
  "step_from_dict p =
     (case sp_status p of
        None \<Rightarrow> Inl StatusRequired
      | Some v \<Rightarrow>
     (case step_status_of v of
        None \<Rightarrow> Inl StatusUnknown
      | Some status \<Rightarrow>
     (case parse_datetime (sp_created_at p) True of
        Inl e \<Rightarrow> Inl e
      | Inr created \<Rightarrow>
     (case parse_datetime (sp_started_at p) False of
        Inl e \<Rightarrow> Inl e
      | Inr started_v \<Rightarrow>
     (case parse_datetime (sp_ended_at p) False of
        Inl e \<Rightarrow> Inl e
      | Inr ended_v \<Rightarrow>
     (let s = \<lparr>step_id = opt_default (sp_step_id p), step_name = opt_default (sp_name p),
               step_status = status, step_created_at = the created,
               step_started_at = started_v, step_ended_at = ended_v,
               step_error_code = sp_error_code p, step_error_message = sp_error_message p\<rparr>
      in case step_validate s of Some e \<Rightarrow> Inl e | None \<Rightarrow> Inr s))))))"

primrec steps_to_dict :: "(string \<Rightarrow> step_state option) \<Rightarrow> string list \<Rightarrow> state_error + step_payload list" where
  "steps_to_dict m [] = Inr []"
| "steps_to_dict m (k # ks) =
     (case m k of
        None \<Rightarrow> Inl UnknownStepId
      | Some st \<Rightarrow>
          (case step_to_dict st of
             Inl e \<Rightarrow> Inl e
           | Inr p \<Rightarrow> (case steps_to_dict m ks of Inl e \<Rightarrow> Inl e | Inr ps \<Rightarrow> Inr (p # ps))))"

definition to_dict :: "agent_state \<Rightarrow> state_error + state_payload" where
  "to_dict s =
     (case validate s of
        Some e \<Rightarrow> Inl e
      | None \<Rightarrow>
          (case steps_to_dict (map_of (steps s)) (sort (dict_keys (steps s))) of
             Inl e \<Rightarrow> Inl e
           | Inr ps \<Rightarrow>
               Inr \<lparr>ap_schema_version = Some (schema_version s), ap_run_id = Some (run_id s),
                    ap_status = Some (run_status_value (run_status s)),
                    ap_created_at = Some (created_at s), ap_updated_at = Some (updated_at s),
                    ap_steps = ps, ap_active_step_ids = sorted_list_of_set (active_step_ids s),
                    ap_stop_reason = map_option stop_reason_value (run_stop_reason s),
                    ap_final_output = final_output s, ap_error_code = run_error_code s,
                    ap_error_message = run_error_message s\<rparr>))"

fun steps_from_dict ::
  "(string, step_state) dict \<Rightarrow> step_payload list \<Rightarrow> state_error + (string, step_state) dict" where
  "steps_from_dict acc [] = Inr acc"
| "steps_from_dict acc (p # ps) =
     (case step_from_dict p of
        Inl e \<Rightarrow> Inl e
      | Inr st \<Rightarrow>
          (if map_of acc (step_id st) \<noteq> None then Inl StepIdNotUnique
           else steps_from_dict (AList.update (step_id st) st acc) ps))"

definition from_dict :: "state_payload \<Rightarrow> state_error + agent_state" where
  "from_dict p =
     (if ap_schema_version p \<noteq> Some 1 then Inl UnsupportedStateVersion
      else case ap_status p of
        None \<Rightarrow> Inl StatusRequired
      | Some v \<Rightarrow>
     (case run_status_of v of
        None \<Rightarrow> Inl StatusUnknown
      | Some status \<Rightarrow>
     (let reason = (case ap_stop_reason p of
                      None \<Rightarrow> Inr None
                    | Some r \<Rightarrow> (case stop_reason_of r of
                                  None \<Rightarrow> Inl StopReasonUnknown
                                | Some x \<Rightarrow> Inr (Some x)))
      in case reason of
        Inl e \<Rightarrow> Inl e
      | Inr stop \<Rightarrow>
     (case steps_from_dict [] (ap_steps p) of
        Inl e \<Rightarrow> Inl e
      | Inr sts \<Rightarrow>
     (case parse_datetime (ap_created_at p) True of
        Inl e \<Rightarrow> Inl e
      | Inr created \<Rightarrow>
     (case parse_datetime (ap_updated_at p) True of
        Inl e \<Rightarrow> Inl e
      | Inr updated \<Rightarrow>
     (let s = \<lparr>run_id = opt_default (ap_run_id p), schema_version = 1, run_status = status,
               created_at = the created, updated_at = the updated, steps = sts,
               active_step_ids = set (ap_active_step_ids p), run_stop_reason = stop,
               final_output = ap_final_output p, run_error_code = ap_error_code p,
               run_error_message = ap_error_message p\<rparr>
      in case validate s of Some e \<Rightarrow> Inl e | None \<Rightarrow> Inr s)))))))"

text \<open>\<^verbatim>\<open>snapshot_copy\<close> and \<^verbatim>\<open>AgentStateMachine._clone\<close>\<close>

definition snapshot_copy :: "agent_state \<Rightarrow> state_error + agent_state" where
  "snapshot_copy s = (case to_dict s of Inl e \<Rightarrow> Inl e | Inr p \<Rightarrow> from_dict p)"

section \<open>Direct mutators\<close>

text \<open>\<^verbatim>\<open>_safe_error_message\<close>: whitespace collapsed, at most 500 characters.\<close>

definition safe_error_message :: "string option \<Rightarrow> string option" where
  "safe_error_message m = map_option (\<lambda>t. take 500 (join_space (py_words [] t))) m"

type_synonym mutation = "agent_state \<times> state_error option"

definition touch_and_validate :: "agent_state \<Rightarrow> py_datetime \<Rightarrow> mutation" where
  "touch_and_validate s now = (let s' = s\<lparr>updated_at := now\<rparr> in (s', validate s'))"

definition mark_running :: "agent_state \<Rightarrow> py_datetime \<Rightarrow> mutation" where
  "mark_running s now = touch_and_validate (s\<lparr>run_status := R_RUNNING, run_stop_reason := None\<rparr>) now"

definition new_step :: "string \<Rightarrow> string \<Rightarrow> py_datetime \<Rightarrow> step_state" where
  "new_step i n now = \<lparr>step_id = i, step_name = n, step_status = S_PENDING, step_created_at = now,
     step_started_at = None, step_ended_at = None, step_error_code = None, step_error_message = None\<rparr>"

definition add_step :: "agent_state \<Rightarrow> string \<Rightarrow> string \<Rightarrow> py_datetime \<Rightarrow> py_datetime \<Rightarrow> mutation" where
  "add_step s i n now now' =
     (if map_of (steps s) i \<noteq> None then (s, Some StepIdNotUnique)
      else touch_and_validate (s\<lparr>steps := AList.update i (new_step i n now) (steps s)\<rparr>) now')"

text \<open>The common shape of the step mutators: look the step up, change it, then the active set.\<close>

definition change_step ::
  "agent_state \<Rightarrow> string \<Rightarrow> (step_state \<Rightarrow> step_state) \<Rightarrow> (string set \<Rightarrow> string set) \<Rightarrow> py_datetime
     \<Rightarrow> mutation" where
  "change_step s i f g now =
     (case map_of (steps s) i of
        None \<Rightarrow> (s, Some UnknownStepId)
      | Some st \<Rightarrow>
          touch_and_validate
            (s\<lparr>steps := AList.update i (f st) (steps s), active_step_ids := g (active_step_ids s)\<rparr>) now)"

definition start_step :: "agent_state \<Rightarrow> string \<Rightarrow> py_datetime \<Rightarrow> py_datetime \<Rightarrow> mutation" where
  "start_step s i now now' = change_step s i
     (\<lambda>st. st\<lparr>step_status := S_RUNNING, step_started_at := Some now, step_ended_at := None,
               step_error_code := None, step_error_message := None\<rparr>) (insert i) now'"

definition succeed_step :: "agent_state \<Rightarrow> string \<Rightarrow> py_datetime \<Rightarrow> py_datetime \<Rightarrow> mutation" where
  "succeed_step s i now now' = change_step s i
     (\<lambda>st. st\<lparr>step_status := S_SUCCEEDED, step_ended_at := Some now,
               step_error_code := None, step_error_message := None\<rparr>) (\<lambda>a. a - {i}) now'"

definition fail_step ::
  "agent_state \<Rightarrow> string \<Rightarrow> string \<Rightarrow> string option \<Rightarrow> py_datetime \<Rightarrow> py_datetime \<Rightarrow> mutation" where
  "fail_step s i code msg now now' = change_step s i
     (\<lambda>st. st\<lparr>step_status := S_FAILED, step_ended_at := Some now,
               step_error_code := Some code, step_error_message := safe_error_message msg\<rparr>)
     (\<lambda>a. a - {i}) now'"

definition cancel_step ::
  "agent_state \<Rightarrow> string \<Rightarrow> string \<Rightarrow> string option \<Rightarrow> py_datetime \<Rightarrow> py_datetime \<Rightarrow> mutation" where
  "cancel_step s i code msg now now' = change_step s i
     (\<lambda>st. st\<lparr>step_status := S_CANCELLED, step_ended_at := Some now,
               step_error_code := Some code, step_error_message := safe_error_message msg\<rparr>)
     (\<lambda>a. a - {i}) now'"

definition block_step ::
  "agent_state \<Rightarrow> string \<Rightarrow> string option \<Rightarrow> string option \<Rightarrow> py_datetime \<Rightarrow> py_datetime \<Rightarrow> mutation" where
  "block_step s i code msg now now' = change_step s i
     (\<lambda>st. st\<lparr>step_status := S_BLOCKED, step_started_at := None, step_ended_at := Some now,
               step_error_code := code, step_error_message := safe_error_message msg\<rparr>)
     (\<lambda>a. a - {i}) now'"

definition mark_succeeded :: "agent_state \<Rightarrow> string option \<Rightarrow> py_datetime \<Rightarrow> mutation" where
  "mark_succeeded s out now = touch_and_validate
     (s\<lparr>run_status := R_SUCCEEDED, run_stop_reason := Some SR_COMPLETED, final_output := out,
        run_error_code := None, run_error_message := None, active_step_ids := {}\<rparr>) now"

definition mark_failed ::
  "agent_state \<Rightarrow> stop_reason \<Rightarrow> string \<Rightarrow> string option \<Rightarrow> py_datetime \<Rightarrow> mutation" where
  "mark_failed s reason code msg now = touch_and_validate
     (s\<lparr>run_status := R_FAILED, run_stop_reason := Some reason, run_error_code := Some code,
        run_error_message := safe_error_message msg, active_step_ids := {}\<rparr>) now"

definition mark_cancelled ::
  "agent_state \<Rightarrow> stop_reason \<Rightarrow> string \<Rightarrow> string option \<Rightarrow> py_datetime \<Rightarrow> mutation" where
  "mark_cancelled s reason code msg now = touch_and_validate
     (s\<lparr>run_status := R_CANCELLED, run_stop_reason := Some reason, run_error_code := Some code,
        run_error_message := safe_error_message msg, active_step_ids := {}\<rparr>) now"

section \<open>What validation establishes\<close>

text \<open>The stop reasons each run status admits.\<close>

fun stop_ok :: "run_status \<Rightarrow> stop_reason option \<Rightarrow> bool" where
  "stop_ok R_CREATED r = (r = None)"
| "stop_ok R_RUNNING r = (r = None)"
| "stop_ok R_SUCCEEDED r = (r = Some SR_COMPLETED)"
| "stop_ok R_FAILED r = (\<exists>x. r = Some x \<and> \<not> cancellation_stop x \<and> x \<noteq> SR_COMPLETED)"
| "stop_ok R_CANCELLED r = (\<exists>x. r = Some x \<and> cancellation_stop x)"

definition run_ok :: "agent_state \<Rightarrow> bool" where
  "run_ok s \<longleftrightarrow> schema_version s = 1 \<and> run_id s \<noteq> [] \<and> is_utc (created_at s) \<and> is_utc (updated_at s) \<and>
     instant (created_at s) \<le> instant (updated_at s) \<and>
     stop_ok (run_status s) (run_stop_reason s) \<and>
     (terminal_run (run_status s) \<longrightarrow> active_step_ids s = {})"

definition steps_ok :: "agent_state \<Rightarrow> bool" where
  "steps_ok s \<longleftrightarrow> wf_dict (steps s) \<and>
     (\<forall>k st. map_of (steps s) k = Some st \<longrightarrow> step_id st = k \<and> step_validate st = None) \<and>
     active_step_ids s = {k. \<exists>st. map_of (steps s) k = Some st \<and> active_status (step_status st)}"

lemma wf_dict_card: "length d = card (set (dict_keys d)) \<longleftrightarrow> wf_dict d"
  by (metis card_distinct distinct_card length_map)

lemma run_guards_iff:
  "first_error
     [(schema_version s \<noteq> 1, UnsupportedStateVersion),
      (run_id s = [], RunIdEmpty),
      (\<not> is_utc (created_at s), NotUtc),
      (\<not> is_utc (updated_at s), NotUtc),
      (instant (updated_at s) < instant (created_at s), UpdatedBeforeCreated),
      (run_status s \<in> {R_CREATED, R_RUNNING} \<and> run_stop_reason s \<noteq> None, LiveRunHasStopReason),
      (terminal_run (run_status s) \<and> run_stop_reason s = None, TerminalRunNoStopReason),
      (terminal_run (run_status s) \<and> active_step_ids s \<noteq> {}, TerminalRunHasActiveSteps),
      (run_status s = R_SUCCEEDED \<and> run_stop_reason s \<noteq> Some SR_COMPLETED, SucceededRunReason),
      (run_status s = R_CANCELLED \<and>
         \<not> (some_and (run_stop_reason s) (\<lambda>r. cancellation_stop r)), CancelledRunReason),
      (run_status s = R_FAILED \<and>
         (some_and (run_stop_reason s) (\<lambda>r. cancellation_stop r \<or> r = SR_COMPLETED)),
         FailedRunReason),
      (length (steps s) \<noteq> card (set (dict_keys (steps s))), StepIdNotUnique)] = None
   \<longleftrightarrow> run_ok s \<and> wf_dict (steps s)"
  unfolding first_error_None_iff wf_dict_card
  by (cases "run_status s") (auto simp: run_ok_def terminal_run_def not_less)

lemma valid_iff: "validate s = None \<longleftrightarrow> run_ok s \<and> steps_ok s"
proof (cases "wf_dict (steps s)")
  case False
  then show ?thesis
    unfolding validate_def or_raise_None_iff run_guards_iff steps_ok_def by blast
next
  case wf: True
  let ?loop = "first_some (\<lambda>(k, st). if k \<noteq> step_id st then Some StepKeyMismatch else step_validate st)
        (steps s)"
  have loop: "?loop = None \<longleftrightarrow> (\<forall>k st. map_of (steps s) k = Some st \<longrightarrow> step_id st = k \<and> step_validate st = None)"
    using wf by (auto simp: guard_simps map_of_eq_Some_iff split: if_splits)
  have act: "set (map (step_id \<circ> snd) (filter (\<lambda>p. active_status (step_status (snd p))) (steps s))) =
      {k. \<exists>st. map_of (steps s) k = Some st \<and> active_status (step_status st)}" if "?loop = None"
    using that wf unfolding loop by (force simp: image_iff map_of_eq_Some_iff)
  have split: "validate s = None \<longleftrightarrow> (run_ok s \<and> wf_dict (steps s)) \<and> ?loop = None \<and>
      (\<forall>i \<in> active_step_ids s. \<exists>st. map_of (steps s) i = Some st \<and> active_status (step_status st)) \<and>
      set (map (step_id \<circ> snd) (filter (\<lambda>p. active_status (step_status (snd p))) (steps s)))
        = active_step_ids s"
    unfolding validate_def or_raise_None_iff run_guards_iff
    by (simp split: option.split) (metis option.distinct(1) option.inject option.exhaust)
  show ?thesis
  proof (cases "?loop = None")
    case True
    show ?thesis unfolding split act [OF True] unfolding steps_ok_def loop [symmetric] using wf True by auto
  next
    case False
    then show ?thesis unfolding split steps_ok_def loop [symmetric] by blast
  qed
qed

lemma step_valid_iff:
  "step_validate s = None \<longleftrightarrow>
     step_id s \<noteq> [] \<and> step_name s \<noteq> [] \<and> is_utc (step_created_at s) \<and>
     (\<forall>t. step_started_at s = Some t \<longrightarrow> is_utc t \<and> instant (step_created_at s) \<le> instant t) \<and>
     (\<forall>t. step_ended_at s = Some t \<longrightarrow> is_utc t \<and> instant (step_created_at s) \<le> instant t \<and>
        (\<forall>b. step_started_at s = Some b \<longrightarrow> instant b \<le> instant t)) \<and>
     (step_status s = S_PENDING \<longrightarrow> step_started_at s = None) \<and>
     (active_status (step_status s) \<longrightarrow> step_started_at s \<noteq> None) \<and>
     (step_status s = S_BLOCKED \<longrightarrow> step_started_at s = None) \<and>
     (terminal_step (step_status s) \<longleftrightarrow> step_ended_at s \<noteq> None) \<and>
     (step_status s = S_SUCCEEDED \<longrightarrow> \<not> truthy (step_error_code s) \<and> \<not> truthy (step_error_message s)) \<and>
     (step_status s = S_FAILED \<longrightarrow> truthy (step_error_code s) \<or> truthy (step_error_message s))"
proof -
  have start: "first_error (case step_started_at s of
         None \<Rightarrow> []
       | Some t \<Rightarrow>
           [(\<not> is_utc t, NotUtc),
            (instant t < instant (step_created_at s), StepStartedBeforeCreated)]) = None \<longleftrightarrow>
      (\<forall>t. step_started_at s = Some t \<longrightarrow> is_utc t \<and> instant (step_created_at s) \<le> instant t)"
    by (cases "step_started_at s") (simp_all add: not_less)
  have finish: "first_error (case step_ended_at s of
         None \<Rightarrow> []
       | Some t \<Rightarrow>
           [(\<not> is_utc t, NotUtc),
            (instant t < instant (step_created_at s), StepEndedBeforeCreated),
            (some_and (step_started_at s) (\<lambda>b. instant t < instant b), StepEndedBeforeStarted)]) = None
      \<longleftrightarrow> (\<forall>t. step_ended_at s = Some t \<longrightarrow> is_utc t \<and> instant (step_created_at s) \<le> instant t \<and>
            (\<forall>b. step_started_at s = Some b \<longrightarrow> instant b \<le> instant t))"
    by (cases "step_ended_at s") (auto simp: not_less)
  show ?thesis
    unfolding step_validate_def first_error_append or_raise_None_iff start finish
    by (cases "step_status s") (auto simp: terminal_step_def active_status_def)
qed

lemma active_not_terminal: "active_status x \<Longrightarrow> \<not> terminal_step x"
  by (auto simp: active_status_def terminal_step_def)

section \<open>Serialisation round trip\<close>

lemma run_status_roundtrip [simp]: "run_status_of (run_status_value r) = Some r"
  by (cases r) (simp_all add: run_status_of_def run_statuses_def)

lemma step_status_roundtrip [simp]: "step_status_of (step_status_value r) = Some r"
  by (cases r) (simp_all add: step_status_of_def step_statuses_def)

lemma stop_reason_roundtrip [simp]: "stop_reason_of (stop_reason_value r) = Some r"
  by (cases r) (simp_all add: stop_reason_of_def stop_reasons_def)

lemma step_roundtrip:
  assumes "step_validate st = None"
  shows "\<exists>p. step_to_dict st = Inr p \<and> step_from_dict p = Inr st"
proof -
  from assms have "is_utc (step_created_at st)"
      "\<And>t. step_started_at st = Some t \<Longrightarrow> is_utc t" "\<And>t. step_ended_at st = Some t \<Longrightarrow> is_utc t"
    by (auto simp: step_valid_iff)
  then show ?thesis
    using assms
    by (cases st; cases "step_started_at st"; cases "step_ended_at st")
       (simp_all add: step_to_dict_def step_from_dict_def parse_datetime_def ensure_utc_def
        opt_default_def Let_def)
qed

lemma steps_roundtrip:
  assumes "\<forall>k \<in> set ks. \<exists>st. m k = Some st \<and> step_id st = k \<and> step_validate st = None"
      and "distinct ks" and "set ks \<inter> fst ` set acc = {}"
  shows "\<exists>ps. steps_to_dict m ks = Inr ps \<and>
           steps_from_dict acc ps = Inr (acc @ map (\<lambda>k. (k, the (m k))) ks)"
  using assms
proof (induction ks arbitrary: acc)
  case Nil
  then show ?case by simp
next
  case (Cons k ks)
  then obtain st where st: "m k = Some st" "step_id st = k" "step_validate st = None" by auto
  obtain p where p: "step_to_dict st = Inr p" "step_from_dict p = Inr st"
    using step_roundtrip [OF st(3)] by blast
  from Cons.prems have new: "k \<notin> fst ` set acc" by auto
  obtain ps where ps: "steps_to_dict m ks = Inr ps"
      "steps_from_dict (acc @ [(k, st)]) ps =
         Inr ((acc @ [(k, st)]) @ map (\<lambda>k. (k, the (m k))) ks)"
    using Cons.IH [of "acc @ [(k, st)]"] Cons.prems by auto
  with st p new show ?case by (simp add: update_new map_of_eq_None_iff)
qed

text \<open>The state with its steps in the order \<^verbatim>\<open>sorted(self.steps)\<close>.\<close>

definition sort_steps :: "agent_state \<Rightarrow> agent_state" where
  "sort_steps s =
     s\<lparr>steps := map (\<lambda>k. (k, the (map_of (steps s) k))) (sort (dict_keys (steps s)))\<rparr>"

lemma map_of_sort_steps [simp]: "map_of (steps (sort_steps s)) = map_of (steps s)"
proof
  fix k
  show "map_of (steps (sort_steps s)) k = map_of (steps s) k"
  proof (cases "k \<in> fst ` set (steps s)")
    case True
    then show ?thesis
      by (auto simp: sort_steps_def map_of_map_restrict restrict_map_def key_iff simp del: not_None_eq)
  next
    case False
    then show ?thesis
      by (auto simp: sort_steps_def map_of_map_restrict restrict_map_def
            dest: map_of_eq_None_iff [THEN iffD2])
  qed
qed

lemma sort_steps_fields [simp]:
  "run_id (sort_steps s) = run_id s" "schema_version (sort_steps s) = schema_version s"
  "run_status (sort_steps s) = run_status s" "created_at (sort_steps s) = created_at s"
  "updated_at (sort_steps s) = updated_at s" "active_step_ids (sort_steps s) = active_step_ids s"
  "run_stop_reason (sort_steps s) = run_stop_reason s" "final_output (sort_steps s) = final_output s"
  "run_error_code (sort_steps s) = run_error_code s"
  "run_error_message (sort_steps s) = run_error_message s"
  by (simp_all add: sort_steps_def)

lemma valid_sort_steps [simp]:
  assumes "validate s = None"
  shows "validate (sort_steps s) = None"
proof -
  from assms have "wf_dict (steps (sort_steps s))"
    by (simp add: valid_iff steps_ok_def sort_steps_def comp_def)
  with assms show ?thesis by (auto simp: valid_iff run_ok_def steps_ok_def)
qed

lemma snapshot_copy_valid:
  assumes "validate s = None"
  shows "snapshot_copy s = Inr (sort_steps s)"
proof -
  from assms have ok: "run_ok s" "steps_ok s" by (simp_all add: valid_iff)
  let ?ks = "sort (dict_keys (steps s))"
  have "\<forall>k \<in> set ?ks. \<exists>st. map_of (steps s) k = Some st \<and> step_id st = k \<and> step_validate st = None"
    using ok(2) by (auto simp: steps_ok_def map_of_eq_Some_iff)
  moreover have "distinct ?ks" using ok(2) by (simp add: steps_ok_def)
  ultimately obtain ps where ps: "steps_to_dict (map_of (steps s)) ?ks = Inr ps"
      "steps_from_dict [] ps = Inr (map (\<lambda>k. (k, the (map_of (steps s) k))) ?ks)"
    using steps_roundtrip [of ?ks "map_of (steps s)" "[]"] by auto
  have fin: "finite (active_step_ids s)"
    using ok(2) finite_subset [of "active_step_ids s" "dom (map_of (steps s))"]
    by (auto simp: steps_ok_def finite_dom_map_of)
  have "from_dict \<lparr>ap_schema_version = Some (schema_version s), ap_run_id = Some (run_id s),
       ap_status = Some (run_status_value (run_status s)), ap_created_at = Some (created_at s),
       ap_updated_at = Some (updated_at s), ap_steps = ps,
       ap_active_step_ids = sorted_list_of_set (active_step_ids s),
       ap_stop_reason = map_option stop_reason_value (run_stop_reason s),
       ap_final_output = final_output s, ap_error_code = run_error_code s,
       ap_error_message = run_error_message s\<rparr> = Inr (sort_steps s)"
    using ok(1) fin valid_sort_steps [OF assms]
    by (cases s; cases "run_stop_reason s")
       (simp_all add: from_dict_def ps parse_datetime_def ensure_utc_def opt_default_def
          run_ok_def sort_steps_def Let_def)
  with assms ps(1) show ?thesis by (simp add: snapshot_copy_def to_dict_def)
qed


text \<open>A running Run with two steps in insertion order, used by the witnesses.\<close>

definition sample_state :: agent_state where
  "sample_state =
     \<lparr>run_id = ''r'', schema_version = 1, run_status = R_RUNNING, created_at = DT (Some 0) 0,
      updated_at = DT (Some 0) 5,
      steps = [(''b'', new_step ''b'' ''B'' (DT (Some 0) 1)),
               (''a'', (new_step ''a'' ''A'' (DT (Some 0) 1))
                  \<lparr>step_status := S_RUNNING, step_started_at := Some (DT (Some 0) 2)\<rparr>)],
      active_step_ids = {''a''}, run_stop_reason = None, final_output = None,
      run_error_code = None, run_error_message = None\<rparr>"

lemma sample_state_valid: "validate sample_state = None"
  by (simp add: sample_state_def new_step_def validate_def step_validate_def active_status_def
      terminal_run_def terminal_step_def is_utc_def)


end
