(* ===== verification/State_Machine.thy ===== *)
theory State_Machine
  imports Agent_State
begin

text \<open>
  \<^verbatim>\<open>core/runtime/state_machine.py\<close>: the events a Run and its Steps accept, the
  validation of an event when it is built, the two transition tables, and the four operations
  of \<^verbatim>\<open>AgentStateMachine\<close>. An operation works on a clone and commits it at the end, so
  it returns the state it leaves behind together with the error it raised, if any.
\<close>

section \<open>Events\<close>

datatype run_event_type =
    RE_STARTED | RE_COMPLETED | RE_FAILED | RE_DEADLINE_EXCEEDED | RE_MAX_STEPS_REACHED
  | RE_NO_ACTION | RE_REPEATED_ACTION | RE_BUDGET_EXHAUSTED | RE_CANCELLED

datatype step_event_type =
    SE_STARTED | SE_APPROVAL_REQUESTED | SE_APPROVAL_APPROVED | SE_APPROVAL_REJECTED
  | SE_SUCCEEDED | SE_FAILED | SE_CANCELLED | SE_BLOCKED | SE_SKIPPED

fun run_event_value :: "run_event_type \<Rightarrow> string" where
  "run_event_value RE_STARTED = ''STARTED''"
| "run_event_value RE_COMPLETED = ''COMPLETED''"
| "run_event_value RE_FAILED = ''FAILED''"
| "run_event_value RE_DEADLINE_EXCEEDED = ''DEADLINE_EXCEEDED''"
| "run_event_value RE_MAX_STEPS_REACHED = ''MAX_STEPS_REACHED''"
| "run_event_value RE_NO_ACTION = ''NO_ACTION''"
| "run_event_value RE_REPEATED_ACTION = ''REPEATED_ACTION''"
| "run_event_value RE_BUDGET_EXHAUSTED = ''BUDGET_EXHAUSTED''"
| "run_event_value RE_CANCELLED = ''CANCELLED''"

fun step_event_value :: "step_event_type \<Rightarrow> string" where
  "step_event_value SE_STARTED = ''STARTED''"
| "step_event_value SE_APPROVAL_REQUESTED = ''APPROVAL_REQUESTED''"
| "step_event_value SE_APPROVAL_APPROVED = ''APPROVAL_APPROVED''"
| "step_event_value SE_APPROVAL_REJECTED = ''APPROVAL_REJECTED''"
| "step_event_value SE_SUCCEEDED = ''SUCCEEDED''"
| "step_event_value SE_FAILED = ''FAILED''"
| "step_event_value SE_CANCELLED = ''CANCELLED''"
| "step_event_value SE_BLOCKED = ''BLOCKED''"
| "step_event_value SE_SKIPPED = ''SKIPPED''"

fun special_failure_reason :: "run_event_type \<Rightarrow> stop_reason option" where
  "special_failure_reason RE_DEADLINE_EXCEEDED = Some SR_DEADLINE_EXCEEDED"
| "special_failure_reason RE_MAX_STEPS_REACHED = Some SR_MAX_STEPS_REACHED"
| "special_failure_reason RE_NO_ACTION = Some SR_NO_ACTION"
| "special_failure_reason RE_REPEATED_ACTION = Some SR_REPEATED_ACTION"
| "special_failure_reason RE_BUDGET_EXHAUSTED = Some SR_BUDGET_EXHAUSTED"
| "special_failure_reason _ = None"

definition failure_reason :: "stop_reason \<Rightarrow> bool" where
  "failure_reason r \<longleftrightarrow> r \<in> set stop_reasons \<and> \<not> cancellation_stop r \<and> r \<noteq> SR_COMPLETED"

datatype event_error =
    OccurredAtNotUtc | ErrorMessageBlank | ErrorMessageUnsafe | ErrorCodeRequired | ErrorCodeUnsafe
  | StartedHasTerminalFields | CompletedReason | CompletedHasError | OutputNotAllowed
  | CancelledReason | FailureReason | SpecialFailureReason
  | EventStepIdBlank | EventHasError | EventNeedsError

definition error_code_char :: "char \<Rightarrow> bool" where
  "error_code_char c \<longleftrightarrow> is_alnum_ascii c \<or> c \<in> set ''._:-''"

text \<open>\<^verbatim>\<open>_SAFE_ERROR_CODE.fullmatch(value)\<close>\<close>

definition safe_error_code :: "string \<Rightarrow> bool" where
  "safe_error_code v =
     (case v of
        [] \<Rightarrow> False
      | c # cs \<Rightarrow> is_alnum_ascii c \<and> length cs \<le> 127 \<and> list_all error_code_char cs)"

definition validate_utc_datetime :: "py_datetime \<Rightarrow> event_error option" where
  "validate_utc_datetime d = (if \<not> is_utc d then Some OccurredAtNotUtc else None)"

definition validate_error_code :: "string option \<Rightarrow> bool \<Rightarrow> event_error option" where
  "validate_error_code v required =
     (case v of
        None \<Rightarrow> if required then Some ErrorCodeRequired else None
      | Some c \<Rightarrow> if blank c \<or> \<not> safe_error_code c then Some ErrorCodeUnsafe else None)"

definition validate_error_message :: "string option \<Rightarrow> event_error option" where
  "validate_error_message v =
     (case v of
        None \<Rightarrow> None
      | Some m \<Rightarrow>
          first_error
            [(blank m, ErrorMessageBlank),
             (length m > 500 \<or> CHR 0x0A \<in> set m \<or> CHR 0x0D \<in> set m \<or>
                has_substring ''traceback'' (map lower_char m), ErrorMessageUnsafe)])"

record run_state_event =
  re_type :: run_event_type
  re_occurred_at :: py_datetime
  re_stop_reason :: "stop_reason option"
  re_final_output :: "string option"
  re_error_code :: "string option"
  re_error_message :: "string option"

record step_state_event =
  se_type :: step_event_type
  se_step_id :: string
  se_occurred_at :: py_datetime
  se_error_code :: "string option"
  se_error_message :: "string option"

text \<open>\<^verbatim>\<open>RunStateEvent.__post_init__\<close>\<close>

definition run_event_check :: "run_state_event \<Rightarrow> event_error option" where
  "run_event_check e =
     or_raise (validate_utc_datetime (re_occurred_at e))
    (or_raise (validate_error_message (re_error_message e))
    (case re_type e of
       RE_STARTED \<Rightarrow>
         first_error
           [(re_stop_reason e \<noteq> None \<or> re_final_output e \<noteq> None \<or> re_error_code e \<noteq> None \<or>
             re_error_message e \<noteq> None, StartedHasTerminalFields)]
     | RE_COMPLETED \<Rightarrow>
         first_error
           [(re_stop_reason e \<noteq> Some SR_COMPLETED, CompletedReason),
            (re_error_code e \<noteq> None \<or> re_error_message e \<noteq> None, CompletedHasError)]
     | t \<Rightarrow>
         or_raise (first_error [(re_final_output e \<noteq> None, OutputNotAllowed)])
        (if t = RE_CANCELLED then
           or_raise
             (first_error
                [(\<not> (some_and (re_stop_reason e) (\<lambda>r. cancellation_stop r)), CancelledReason)])
             (validate_error_code (re_error_code e) True)
         else
           or_raise
             (first_error
                [(\<not> (some_and (re_stop_reason e) (\<lambda>r. failure_reason r)), FailureReason),
                 (special_failure_reason t \<noteq> None \<and> re_stop_reason e \<noteq> special_failure_reason t,
                  SpecialFailureReason)])
             (validate_error_code (re_error_code e) True))))"

text \<open>\<^verbatim>\<open>StepStateEvent.__post_init__\<close>\<close>

definition step_event_check :: "step_state_event \<Rightarrow> event_error option" where
  "step_event_check e =
     or_raise (first_error [(blank (se_step_id e), EventStepIdBlank)])
    (or_raise (validate_utc_datetime (se_occurred_at e))
    (or_raise (validate_error_message (se_error_message e))
    (if se_type e \<in> {SE_STARTED, SE_SUCCEEDED, SE_SKIPPED, SE_APPROVAL_REQUESTED,
                     SE_APPROVAL_APPROVED} then
       first_error [(se_error_code e \<noteq> None \<or> se_error_message e \<noteq> None, EventHasError)]
     else if se_type e \<in> {SE_APPROVAL_REJECTED, SE_FAILED} then
       or_raise
         (first_error [(se_error_code e = None \<and> se_error_message e = None, EventNeedsError)])
         (validate_error_code (se_error_code e) False)
     else validate_error_code (se_error_code e) False)))"

section \<open>Transition tables\<close>

fun run_transition :: "run_status \<Rightarrow> run_event_type \<Rightarrow> run_status option" where
  "run_transition R_CREATED RE_STARTED = Some R_RUNNING"
| "run_transition R_CREATED RE_FAILED = Some R_FAILED"
| "run_transition R_CREATED RE_CANCELLED = Some R_CANCELLED"
| "run_transition R_RUNNING RE_COMPLETED = Some R_SUCCEEDED"
| "run_transition R_RUNNING RE_FAILED = Some R_FAILED"
| "run_transition R_RUNNING RE_DEADLINE_EXCEEDED = Some R_FAILED"
| "run_transition R_RUNNING RE_MAX_STEPS_REACHED = Some R_FAILED"
| "run_transition R_RUNNING RE_NO_ACTION = Some R_FAILED"
| "run_transition R_RUNNING RE_REPEATED_ACTION = Some R_FAILED"
| "run_transition R_RUNNING RE_BUDGET_EXHAUSTED = Some R_FAILED"
| "run_transition R_RUNNING RE_CANCELLED = Some R_CANCELLED"
| "run_transition _ _ = None"

fun step_transition :: "step_status \<Rightarrow> step_event_type \<Rightarrow> step_status option" where
  "step_transition S_PENDING SE_STARTED = Some S_RUNNING"
| "step_transition S_PENDING SE_CANCELLED = Some S_CANCELLED"
| "step_transition S_PENDING SE_BLOCKED = Some S_BLOCKED"
| "step_transition S_PENDING SE_SKIPPED = Some S_SKIPPED"
| "step_transition S_RUNNING SE_SUCCEEDED = Some S_SUCCEEDED"
| "step_transition S_RUNNING SE_FAILED = Some S_FAILED"
| "step_transition S_RUNNING SE_CANCELLED = Some S_CANCELLED"
| "step_transition S_RUNNING SE_APPROVAL_REQUESTED = Some S_WAITING_FOR_APPROVAL"
| "step_transition S_WAITING_FOR_APPROVAL SE_APPROVAL_APPROVED = Some S_RUNNING"
| "step_transition S_WAITING_FOR_APPROVAL SE_APPROVAL_REJECTED = Some S_FAILED"
| "step_transition S_WAITING_FOR_APPROVAL SE_CANCELLED = Some S_CANCELLED"
| "step_transition _ _ = None"

section \<open>The machine\<close>

datatype transition_reason =
    AddNeedsRunning | RegisterNeedsLiveRun | RunTerminal | EventNotAllowed | EventBeforeUpdate
  | RunHasActiveSteps | ActiveStepNotListed | StepMissing | StepTerminal | EventBeforeStepCreated
  | StartNeedsRunningRun | PendingStepListed | EndBeforeStart | UnstartedStepListed

datatype machine_error =
    InvalidStateTransition (entity_type: string) (current_status: string) (event_type: string)
      (entity_id: string) (reason: transition_reason)
  | StateInvalid state_error
  | StepKeyError string

type_synonym transition = "agent_state \<times> machine_error option"

definition raise_run :: "agent_state \<Rightarrow> string \<Rightarrow> transition_reason \<Rightarrow> machine_error" where
  "raise_run s ev r =
     InvalidStateTransition ''Run'' (run_status_value (run_status s)) ev (run_id s) r"

definition raise_step :: "agent_state \<Rightarrow> step_state_event \<Rightarrow> transition_reason \<Rightarrow> machine_error" where
  "raise_step s e r =
     InvalidStateTransition ''Step''
       (case map_of (steps s) (se_step_id e) of
          None \<Rightarrow> ''MISSING''
        | Some st \<Rightarrow> step_status_value (step_status st))
       (step_event_value (se_type e)) (se_step_id e) r"

text \<open>\<^verbatim>\<open>_guard_event_time\<close> reports the status of the Run for both kinds of entity.\<close>

definition guard_event_time ::
  "agent_state \<Rightarrow> py_datetime \<Rightarrow> string \<Rightarrow> string \<Rightarrow> string \<Rightarrow> (bool \<times> machine_error)" where
  "guard_event_time s occurred entity i ev =
     (instant occurred < instant (updated_at s),
      InvalidStateTransition entity (run_status_value (run_status s)) ev i EventBeforeUpdate)"

definition has_active_steps :: "agent_state \<Rightarrow> bool" where
  "has_active_steps s \<longleftrightarrow>
     active_step_ids s \<noteq> {} \<or> (\<exists>p \<in> set (steps s). active_status (step_status (snd p)))"

text \<open>\<^verbatim>\<open>_commit\<close> copies every field but the run id and validates the result again.\<close>

definition commit_state :: "agent_state \<Rightarrow> agent_state \<Rightarrow> transition" where
  "commit_state s c =
     (case validate c of
        Some e \<Rightarrow> (s, Some (StateInvalid e))
      | None \<Rightarrow>
          (let s' = c\<lparr>run_id := run_id s\<rparr>
           in (s', map_option StateInvalid (validate s'))))"

definition register_step_locked ::
  "agent_state \<Rightarrow> string \<Rightarrow> string \<Rightarrow> py_datetime \<Rightarrow> py_datetime \<Rightarrow> transition" where
  "register_step_locked s i n now now' =
     (case snapshot_copy s of
        Inl e \<Rightarrow> (s, Some (StateInvalid e))
      | Inr c \<Rightarrow>
          (case add_step c i n now now' of
             (c', Some e) \<Rightarrow> (s, Some (StateInvalid e))
           | (c', None) \<Rightarrow> commit_state s c'))"

definition machine_add_step ::
  "agent_state \<Rightarrow> string \<Rightarrow> string \<Rightarrow> py_datetime \<Rightarrow> py_datetime \<Rightarrow> transition" where
  "machine_add_step s i n now now' =
     (case validate s of
        Some e \<Rightarrow> (s, Some (StateInvalid e))
      | None \<Rightarrow>
          (if run_status s \<noteq> R_RUNNING then (s, Some (raise_run s ''ADD_STEP'' AddNeedsRunning))
           else register_step_locked s i n now now'))"

definition register_plan_step ::
  "agent_state \<Rightarrow> string \<Rightarrow> string \<Rightarrow> py_datetime \<Rightarrow> py_datetime \<Rightarrow> transition" where
  "register_plan_step s i n now now' =
     (case validate s of
        Some e \<Rightarrow> (s, Some (StateInvalid e))
      | None \<Rightarrow>
          (if run_status s \<notin> {R_CREATED, R_RUNNING}
           then (s, Some (raise_run s ''REGISTER_PLAN_STEP'' RegisterNeedsLiveRun))
           else register_step_locked s i n now now'))"

text \<open>The fields a Run event writes into the clone.\<close>

definition run_event_effect :: "agent_state \<Rightarrow> run_state_event \<Rightarrow> run_status \<Rightarrow> agent_state" where
  "run_event_effect c e target =
     (let c1 = c\<lparr>run_status := target, updated_at := re_occurred_at e\<rparr>
      in if re_type e = RE_STARTED then
           c1\<lparr>run_stop_reason := None, final_output := None, run_error_code := None,
              run_error_message := None\<rparr>
         else if re_type e = RE_COMPLETED then
           c1\<lparr>run_stop_reason := Some SR_COMPLETED, final_output := re_final_output e,
              run_error_code := None, run_error_message := None\<rparr>
         else
           c1\<lparr>run_stop_reason := re_stop_reason e, final_output := None,
              run_error_code := re_error_code e, run_error_message := re_error_message e\<rparr>)"

definition apply_run_event :: "agent_state \<Rightarrow> run_state_event \<Rightarrow> transition" where
  "apply_run_event s e =
     (let ev = run_event_value (re_type e) in
      case validate s of
        Some x \<Rightarrow> (s, Some (StateInvalid x))
      | None \<Rightarrow>
     (if terminal_run (run_status s) then (s, Some (raise_run s ev RunTerminal))
      else case run_transition (run_status s) (re_type e) of
        None \<Rightarrow> (s, Some (raise_run s ev EventNotAllowed))
      | Some target \<Rightarrow>
     (case first_error
             [guard_event_time s (re_occurred_at e) ''Run'' (run_id s) ev,
              (terminal_run target \<and> has_active_steps s, raise_run s ev RunHasActiveSteps)] of
        Some x \<Rightarrow> (s, Some x)
      | None \<Rightarrow>
     (case snapshot_copy s of
        Inl x \<Rightarrow> (s, Some (StateInvalid x))
      | Inr c \<Rightarrow>
     (let c' = run_event_effect c e target
      in case validate c' of
           Some x \<Rightarrow> (s, Some (StateInvalid x))
         | None \<Rightarrow> commit_state s c')))))"

definition step_event_effect :: "step_state \<Rightarrow> step_state_event \<Rightarrow> step_status \<Rightarrow> step_state" where
  "step_event_effect st e target =
     (let st1 = st\<lparr>step_status := target\<rparr>
      in if se_type e = SE_STARTED then
           st1\<lparr>step_started_at := Some (se_occurred_at e), step_ended_at := None,
               step_error_code := None, step_error_message := None\<rparr>
         else if se_type e \<in> {SE_APPROVAL_REQUESTED, SE_APPROVAL_APPROVED} then
           st1\<lparr>step_ended_at := None, step_error_code := None, step_error_message := None\<rparr>
         else
           st1\<lparr>step_ended_at := Some (se_occurred_at e), step_error_code := se_error_code e,
               step_error_message := se_error_message e\<rparr>)"

definition active_effect :: "string set \<Rightarrow> step_state_event \<Rightarrow> string set" where
  "active_effect a e =
     (if se_type e = SE_STARTED then insert (se_step_id e) a
      else if se_type e \<in> {SE_APPROVAL_REQUESTED, SE_APPROVAL_APPROVED} then a
      else a - {se_step_id e})"

text \<open>The guards on the active set and on the start time, which depend on the event and the status.\<close>

definition step_guards :: "agent_state \<Rightarrow> step_state \<Rightarrow> step_state_event \<Rightarrow> (bool \<times> machine_error) list" where
  "step_guards s st e =
     (let listed = se_step_id e \<in> active_step_ids s
      in if se_type e = SE_STARTED then
           [(run_status s \<noteq> R_RUNNING, raise_step s e StartNeedsRunningRun),
            (listed, raise_step s e PendingStepListed)]
         else if step_status st \<in> {S_RUNNING, S_WAITING_FOR_APPROVAL} then
           [(\<not> listed, raise_step s e ActiveStepNotListed),
            (some_and (step_started_at st) (\<lambda>b. instant (se_occurred_at e) < instant b),
             raise_step s e EndBeforeStart)]
         else [(listed, raise_step s e UnstartedStepListed)])"

definition apply_step_event :: "agent_state \<Rightarrow> step_state_event \<Rightarrow> transition" where
  "apply_step_event s e =
     (let found = map_of (steps s) (se_step_id e) in
      if (some_and found (\<lambda>st. active_status (step_status st))) \<and>
         se_type e \<in> {SE_SUCCEEDED, SE_FAILED, SE_CANCELLED, SE_APPROVAL_REJECTED} \<and>
         se_step_id e \<notin> active_step_ids s
      then (s, Some (raise_step s e ActiveStepNotListed))
      else case validate s of
        Some x \<Rightarrow> (s, Some (StateInvalid x))
      | None \<Rightarrow>
     (if terminal_run (run_status s) then (s, Some (raise_step s e RunTerminal))
      else case found of
        None \<Rightarrow> (s, Some (raise_step s e StepMissing))
      | Some st \<Rightarrow>
     (if terminal_step (step_status st) then (s, Some (raise_step s e StepTerminal))
      else case step_transition (step_status st) (se_type e) of
        None \<Rightarrow> (s, Some (raise_step s e EventNotAllowed))
      | Some target \<Rightarrow>
     (case first_error
             ([guard_event_time s (se_occurred_at e) ''Step'' (se_step_id e)
                 (step_event_value (se_type e)),
               (instant (se_occurred_at e) < instant (step_created_at st),
                raise_step s e EventBeforeStepCreated)] @ step_guards s st e) of
        Some x \<Rightarrow> (s, Some x)
      | None \<Rightarrow>
     (case snapshot_copy s of
        Inl x \<Rightarrow> (s, Some (StateInvalid x))
      | Inr c \<Rightarrow>
     (case map_of (steps c) (se_step_id e) of
        None \<Rightarrow> (s, Some (StepKeyError (se_step_id e)))
      | Some cst \<Rightarrow>
     (let c' = c\<lparr>steps := AList.update (se_step_id e) (step_event_effect cst e target) (steps c),
                 updated_at := se_occurred_at e,
                 active_step_ids := active_effect (active_step_ids c) e\<rparr>
      in case validate c' of
           Some x \<Rightarrow> (s, Some (StateInvalid x))
         | None \<Rightarrow> commit_state s c')))))))"

section \<open>Guards and outcomes on a valid state\<close>

lemma terminal_run_simps [simp]:
  "terminal_run R_SUCCEEDED" "terminal_run R_FAILED" "terminal_run R_CANCELLED"
  "\<not> terminal_run R_CREATED" "\<not> terminal_run R_RUNNING"
  by (simp_all add: terminal_run_def)

lemma status_simps [simp]:
  "terminal_step S_SUCCEEDED" "terminal_step S_FAILED" "terminal_step S_CANCELLED"
  "terminal_step S_BLOCKED" "terminal_step S_SKIPPED" "\<not> terminal_step S_PENDING"
  "\<not> terminal_step S_RUNNING" "\<not> terminal_step S_WAITING_FOR_APPROVAL"
  "active_status S_RUNNING" "active_status S_WAITING_FOR_APPROVAL" "\<not> active_status S_PENDING"
  "\<not> active_status S_SUCCEEDED" "\<not> active_status S_FAILED" "\<not> active_status S_CANCELLED"
  "\<not> active_status S_BLOCKED" "\<not> active_status S_SKIPPED"
  by (simp_all add: terminal_step_def active_status_def)

lemma clone_valid [simp]: "validate s = None \<Longrightarrow> snapshot_copy s = Inr (sort_steps s)"
  by (rule snapshot_copy_valid)

lemma commit_valid:
  assumes "validate c = None" "run_id c = run_id s"
  shows "commit_state s c = (c, None)"
proof -
  from assms(2) have "c\<lparr>run_id := run_id s\<rparr> = c" by simp
  with assms(1) show ?thesis by (simp add: commit_state_def)
qed

lemma commit_outcome:
  "commit_state s c = (s', err) \<Longrightarrow> run_id c = run_id s \<Longrightarrow>
   (err = None \<and> validate s' = None \<and> s' = c) \<or> (err \<noteq> None \<and> s' = s)"
  using commit_valid [of c s] by (cases "validate c") (auto simp: commit_state_def)

lemma valid_active_iff:
  assumes "validate s = None"
  shows "k \<in> active_step_ids s \<longleftrightarrow> (\<exists>st. map_of (steps s) k = Some st \<and> active_status (step_status st))"
  using assms by (auto simp: valid_iff steps_ok_def)

lemma valid_step:
  assumes "validate s = None" "map_of (steps s) k = Some st"
  shows "step_id st = k" "step_validate st = None"
  using assms by (auto simp: valid_iff steps_ok_def)

lemma has_active_steps_iff: "validate s = None \<Longrightarrow> has_active_steps s \<longleftrightarrow> active_step_ids s \<noteq> {}"
  by (fastforce simp: has_active_steps_def valid_iff steps_ok_def map_of_eq_Some_iff)

lemma transition_not_terminal: "step_transition a t = Some b \<Longrightarrow> \<not> terminal_step a"
  by (cases a; cases t) simp_all

lemma run_transition_not_terminal: "run_transition a t = Some b \<Longrightarrow> \<not> terminal_run a"
  by (cases a; cases t) simp_all

text \<open>A Step event that was built passes these facts on.\<close>

lemma step_event_utc: "step_event_check e = None \<Longrightarrow> is_utc (se_occurred_at e)"
  by (auto simp: step_event_check_def validate_utc_datetime_def split: if_splits)

lemma step_event_failure_info:
  assumes "step_event_check e = None" "se_type e \<in> {SE_FAILED, SE_APPROVAL_REJECTED}"
  shows "truthy (se_error_code e) \<or> truthy (se_error_message e)"
  using assms
  by (auto simp: step_event_check_def validate_error_code_def validate_error_message_def truthy_def
      split: if_splits option.splits)

lemma step_event_success_info:
  assumes "step_event_check e = None" "se_type e = SE_SUCCEEDED"
  shows "se_error_code e = None \<and> se_error_message e = None"
  using assms by (auto simp: step_event_check_def split: if_splits)

text \<open>The effect of an accepted event on a Step keeps the Step valid.\<close>

lemma step_effect_valid:
  assumes "step_validate st = None" "step_event_check e = None"
      and "step_transition (step_status st) (se_type e) = Some target"
      and "instant (step_created_at st) \<le> instant (se_occurred_at e)"
      and "\<forall>b. step_started_at st = Some b \<longrightarrow> instant b \<le> instant (se_occurred_at e)"
  shows "step_validate (step_event_effect st e target) = None"
  using assms step_event_utc [OF assms(2)] step_event_failure_info [OF assms(2)]
    step_event_success_info [OF assms(2)]
  by (cases "step_status st"; cases "se_type e")
     (auto simp: step_valid_iff step_event_effect_def)

lemma step_effect_fields [simp]:
  "step_id (step_event_effect st e target) = step_id st"
  "step_name (step_event_effect st e target) = step_name st"
  "step_status (step_event_effect st e target) = target"
  "step_created_at (step_event_effect st e target) = step_created_at st"
  by (simp_all add: step_event_effect_def Let_def)

lemma active_effect_iff:
  assumes "step_transition a (se_type e) = Some target"
  shows "k \<in> active_effect A e \<longleftrightarrow> (if k = se_step_id e then active_status target \<and>
            (se_type e = SE_STARTED \<or> k \<in> A) else k \<in> A)"
  using assms by (cases a; cases "se_type e") (auto simp: active_effect_def)

text \<open>The state an accepted Step event leads to, and the condition under which it is accepted.\<close>

definition step_event_result :: "agent_state \<Rightarrow> step_state_event \<Rightarrow> step_state \<Rightarrow> step_status \<Rightarrow> agent_state" where
  "step_event_result s e st target = (sort_steps s)
     \<lparr>steps := AList.update (se_step_id e) (step_event_effect st e target) (steps (sort_steps s)),
      updated_at := se_occurred_at e,
      active_step_ids := active_effect (active_step_ids s) e\<rparr>"

definition step_event_enabled ::
  "agent_state \<Rightarrow> step_state_event \<Rightarrow> step_state \<Rightarrow> step_status \<Rightarrow> bool" where
  "step_event_enabled s e st target \<longleftrightarrow>
     \<not> terminal_run (run_status s) \<and> map_of (steps s) (se_step_id e) = Some st \<and>
     step_transition (step_status st) (se_type e) = Some target \<and>
     instant (updated_at s) \<le> instant (se_occurred_at e) \<and>
     instant (step_created_at st) \<le> instant (se_occurred_at e) \<and>
     (\<forall>b. step_started_at st = Some b \<longrightarrow> instant b \<le> instant (se_occurred_at e)) \<and>
     (se_type e = SE_STARTED \<longrightarrow> run_status s = R_RUNNING)"

lemma step_event_result_valid:
  assumes "validate s = None" "step_event_check e = None" "step_event_enabled s e st target"
  shows "validate (step_event_result s e st target) = None"
proof -
  let ?r = "step_event_result s e st target"
  from assms have ok: "run_ok s" "steps_ok s" by (simp_all add: valid_iff)
  note en = assms(3) [unfolded step_event_enabled_def]
  note st = valid_step [OF assms(1) conjunct1 [OF conjunct2 [OF en]]]
  have lookup: "map_of (steps ?r) = (map_of (steps s))(se_step_id e \<mapsto> step_event_effect st e target)"
    by (simp add: step_event_result_def)
  have "run_ok ?r"
    using ok(1) en step_event_utc [OF assms(2)] by (auto simp: run_ok_def step_event_result_def)
  moreover have "wf_dict (steps ?r)"
    using valid_sort_steps [OF assms(1)] by (simp add: step_event_result_def valid_iff steps_ok_def)
  moreover have "step_validate (step_event_effect st e target) = None"
    using step_effect_valid [OF st(2) assms(2)] en by simp
  moreover have "active_step_ids ?r =
      {k. \<exists>x. map_of (steps ?r) k = Some x \<and> active_status (step_status x)}"
  proof -
    have stay: "active_status (step_status st)"
      if "active_status target" "se_type e \<noteq> SE_STARTED"
      using en that by (cases "step_status st"; cases "se_type e") auto
    have "k \<in> active_effect (active_step_ids s) e \<longleftrightarrow>
        (\<exists>x. map_of (steps ?r) k = Some x \<and> active_status (step_status x))" for k
      using en stay
      by (auto simp: active_effect_iff [where a = "step_status st" and target = target]
          valid_active_iff [OF assms(1)] lookup)
    then show ?thesis by (auto simp: step_event_result_def)
  qed
  ultimately show ?thesis
    using ok(2) st(1) by (auto simp: valid_iff steps_ok_def lookup)
qed

lemma step_guards_pass:
  assumes "validate s = None" "step_event_enabled s e st target"
  shows "first_error (step_guards s st e) = None"
  using assms
  by (cases "step_status st"; cases "se_type e")
     (auto simp: step_guards_def step_event_enabled_def valid_active_iff not_less)

lemma step_event_accept:
  assumes "validate s = None" "step_event_check e = None" "step_event_enabled s e st target"
  shows "apply_step_event s e = (step_event_result s e st target, None)"
proof -
  note en = assms(3) [unfolded step_event_enabled_def]
  have listed: "active_status (step_status st) \<Longrightarrow> se_step_id e \<in> active_step_ids s"
    using en by (auto simp: valid_active_iff [OF assms(1)])
  have time: "fst (guard_event_time s (se_occurred_at e) ent i ev) = False" for ent i ev
    using en by (simp add: guard_event_time_def)
  have "run_id (step_event_result s e st target) = run_id s"
    by (simp add: step_event_result_def)
  note committed = commit_valid [OF step_event_result_valid [OF assms] this]
  show ?thesis
    using en assms(1) listed committed step_event_result_valid [OF assms]
      transition_not_terminal [of "step_status st" "se_type e" target]
    by (auto simp: apply_step_event_def Let_def first_error_append step_guards_pass [OF assms(1,3)]
        time step_event_result_def)
qed

lemma step_event_accepted:
  assumes "apply_step_event s e = (s', None)"
  shows "\<exists>st target. step_event_enabled s e st target \<and> s' = step_event_result s e st target \<and>
           validate s = None \<and> validate s' = None"
proof -
  have valid: "validate s = None"
    using assms by (cases "validate s") (auto simp: apply_step_event_def Let_def split: if_splits)
  obtain st where st: "map_of (steps s) (se_step_id e) = Some st" "\<not> terminal_run (run_status s)"
    using assms valid
    by (cases "map_of (steps s) (se_step_id e)")
       (auto simp: apply_step_event_def Let_def split: if_splits)
  obtain target where target: "step_transition (step_status st) (se_type e) = Some target"
    using assms valid st
    by (cases "step_transition (step_status st) (se_type e)")
       (auto simp: apply_step_event_def Let_def split: if_splits)
  have passed: "first_error
             ([guard_event_time s (se_occurred_at e) ''Step'' (se_step_id e)
                 (step_event_value (se_type e)),
               (instant (se_occurred_at e) < instant (step_created_at st),
                raise_step s e EventBeforeStepCreated)] @ step_guards s st e) = None"
    using assms valid st target transition_not_terminal [OF target]
    by (auto simp: apply_step_event_def Let_def split: if_splits option.splits)
  then have times: "\<not> instant (se_occurred_at e) < instant (updated_at s)"
      "\<not> instant (se_occurred_at e) < instant (step_created_at st)"
    and guards: "first_error (step_guards s st e) = None"
    by (simp_all add: first_error_append guard_event_time_def split: if_splits)
  have "\<not> instant (se_occurred_at e) < instant b" if "step_started_at st = Some b" for b
    using guards that target valid_step(2) [OF valid st(1)]
    by (cases "step_status st"; cases "se_type e")
       (auto simp: step_guards_def step_valid_iff split: if_splits)
  moreover have "run_status s = R_RUNNING" if "se_type e = SE_STARTED"
    using guards that by (simp add: step_guards_def split: if_splits)
  ultimately have enabled: "step_event_enabled s e st target"
    using times st target by (simp add: step_event_enabled_def not_less)
  have "validate (step_event_result s e st target) = None"
    using assms valid st target passed transition_not_terminal [OF target]
    by (cases "validate (step_event_result s e st target)")
       (auto simp: apply_step_event_def step_event_result_def Let_def split: if_splits)
  moreover from this have "s' = step_event_result s e st target"
    using assms valid st target passed transition_not_terminal [OF target]
      commit_valid [of "step_event_result s e st target" s]
    by (auto simp: apply_step_event_def step_event_result_def Let_def split: if_splits)
  ultimately show ?thesis using enabled valid by blast
qed

text \<open>The same for Run events.\<close>

definition run_event_enabled :: "agent_state \<Rightarrow> run_state_event \<Rightarrow> run_status \<Rightarrow> bool" where
  "run_event_enabled s e target \<longleftrightarrow>
     run_transition (run_status s) (re_type e) = Some target \<and>
     instant (updated_at s) \<le> instant (re_occurred_at e) \<and>
     (terminal_run target \<longrightarrow> active_step_ids s = {})"

lemma run_effect_fields [simp]:
  "run_id (run_event_effect c e target) = run_id c"
  "schema_version (run_event_effect c e target) = schema_version c"
  "run_status (run_event_effect c e target) = target"
  "created_at (run_event_effect c e target) = created_at c"
  "updated_at (run_event_effect c e target) = re_occurred_at e"
  "steps (run_event_effect c e target) = steps c"
  "active_step_ids (run_event_effect c e target) = active_step_ids c"
  by (simp_all add: run_event_effect_def Let_def)

lemma run_event_utc: "run_event_check e = None \<Longrightarrow> is_utc (re_occurred_at e)"
  by (simp add: run_event_check_def validate_utc_datetime_def split: if_splits)

lemma run_effect_stop:
  assumes "run_event_check e = None" "run_transition a (re_type e) = Some target"
  shows "stop_ok target (run_stop_reason (run_event_effect c e target))"
  using assms
  by (cases a; cases "re_type e")
     (auto simp: run_event_check_def run_event_effect_def failure_reason_def split: if_splits)

lemma run_event_result_valid:
  assumes "validate s = None" "run_event_check e = None" "run_event_enabled s e target"
  shows "validate (run_event_effect (sort_steps s) e target) = None"
proof -
  note en = assms(3) [unfolded run_event_enabled_def]
  from valid_sort_steps [OF assms(1)] have ok: "run_ok (sort_steps s)" "steps_ok (sort_steps s)"
    by (simp_all add: valid_iff)
  have "run_ok (run_event_effect (sort_steps s) e target)"
    using ok(1) en run_effect_stop [OF assms(2) conjunct1 [OF en]] run_event_utc [OF assms(2)]
    by (auto simp: run_ok_def)
  with ok(2) show ?thesis by (simp add: valid_iff steps_ok_def)
qed

lemma run_event_accept:
  assumes "validate s = None" "run_event_check e = None" "run_event_enabled s e target"
  shows "apply_run_event s e = (run_event_effect (sort_steps s) e target, None)"
  using assms run_event_result_valid [OF assms] run_transition_not_terminal [of "run_status s" "re_type e"]
    commit_valid [of "run_event_effect (sort_steps s) e target" s]
  by (auto simp: apply_run_event_def Let_def run_event_enabled_def guard_event_time_def
      has_active_steps_iff)

lemma run_event_accepted:
  assumes "apply_run_event s e = (s', None)"
  shows "\<exists>target. run_event_enabled s e target \<and> s' = run_event_effect (sort_steps s) e target \<and>
           validate s = None \<and> validate s' = None"
proof -
  have valid: "validate s = None"
    using assms by (cases "validate s") (auto simp: apply_run_event_def Let_def)
  obtain target where target: "run_transition (run_status s) (re_type e) = Some target"
    using assms valid
    by (cases "run_transition (run_status s) (re_type e)")
       (auto simp: apply_run_event_def Let_def split: if_splits)
  note live = run_transition_not_terminal [OF target]
  have guards: "\<not> instant (re_occurred_at e) < instant (updated_at s)"
      "\<not> (terminal_run target \<and> has_active_steps s)"
    using assms valid target live
    by (auto simp: apply_run_event_def Let_def guard_event_time_def split: if_splits)
  have "validate (run_event_effect (sort_steps s) e target) = None"
    using assms valid target live guards
    by (cases "validate (run_event_effect (sort_steps s) e target)")
       (auto simp: apply_run_event_def Let_def guard_event_time_def)
  moreover from this have "s' = run_event_effect (sort_steps s) e target"
    using assms valid target live guards commit_valid [of "run_event_effect (sort_steps s) e target" s]
    by (auto simp: apply_run_event_def Let_def guard_event_time_def)
  ultimately show ?thesis
    using valid target guards by (auto simp: run_event_enabled_def has_active_steps_iff)
qed

text \<open>Registration: the clone with one more PENDING step, validated at the new time.\<close>

definition register_result ::
  "agent_state \<Rightarrow> string \<Rightarrow> string \<Rightarrow> py_datetime \<Rightarrow> py_datetime \<Rightarrow> agent_state" where
  "register_result s i n now now' = (sort_steps s)
     \<lparr>steps := steps (sort_steps s) @ [(i, new_step i n now)], updated_at := now'\<rparr>"

lemma register_accepted:
  assumes "validate s = None" "register_step_locked s i n now now' = (s', None)"
  shows "map_of (steps s) i = None \<and> s' = register_result s i n now now' \<and> validate s' = None"
proof -
  have fresh: "map_of (steps s) i = None"
    using assms by (auto simp: register_step_locked_def add_step_def split: if_splits)
  then have "i \<notin> fst ` set (steps (sort_steps s))" by (simp add: key_iff)
  then have upd: "AList.update i (new_step i n now) (steps (sort_steps s)) =
      steps (sort_steps s) @ [(i, new_step i n now)]" by (rule update_new)
  have "run_id (register_result s i n now now') = run_id s" by (simp add: register_result_def)
  with assms fresh upd show ?thesis
    by (auto simp: register_step_locked_def add_step_def touch_and_validate_def register_result_def
        Let_def commit_valid split: option.splits dest!: commit_outcome)
qed

section \<open>Histories of calls\<close>

datatype machine_call =
    ApplyRunEvent run_state_event
  | ApplyStepEvent step_state_event
  | AddStep string string py_datetime py_datetime
  | RegisterPlanStep string string py_datetime py_datetime

fun machine_step :: "agent_state \<Rightarrow> machine_call \<Rightarrow> transition" where
  "machine_step s (ApplyRunEvent e) = apply_run_event s e"
| "machine_step s (ApplyStepEvent e) = apply_step_event s e"
| "machine_step s (AddStep i n now now') = machine_add_step s i n now now'"
| "machine_step s (RegisterPlanStep i n now now') = register_plan_step s i n now now'"

definition machine_post :: "agent_state \<Rightarrow> machine_call \<Rightarrow> agent_state" where
  "machine_post s c = fst (machine_step s c)"

lemma commit_error_unchanged:
  "run_id c = run_id s \<Longrightarrow> commit_state s c = (s', Some x) \<Longrightarrow> s' = s"
  using commit_outcome [of s c s' "Some x"] by auto

lemma step_event_error_unchanged:
  assumes "apply_step_event s e = (s', Some x)"
  shows "s' = s"
proof (cases "validate s")
  case None
  with assms show ?thesis
    by (auto simp: apply_step_event_def Let_def split: if_splits option.splits
        dest: commit_error_unchanged [rotated])
next
  case (Some y)
  with assms show ?thesis by (auto simp: apply_step_event_def Let_def split: if_splits)
qed

lemma run_event_error_unchanged:
  assumes "apply_run_event s e = (s', Some x)"
  shows "s' = s"
proof (cases "validate s")
  case None
  with assms show ?thesis
    by (auto simp: apply_run_event_def Let_def split: if_splits option.splits
        dest: commit_error_unchanged [rotated])
next
  case (Some y)
  with assms show ?thesis by (auto simp: apply_run_event_def Let_def)
qed

lemma register_error_unchanged:
  assumes "validate s = None" "register_step_locked s i n now now' = (s', Some x)"
  shows "s' = s"
  using assms
  by (auto simp: register_step_locked_def add_step_def touch_and_validate_def Let_def
      split: if_splits option.splits prod.splits dest: commit_error_unchanged [rotated])

lemma machine_error_unchanged: "machine_step s c = (s', Some x) \<Longrightarrow> s' = s"
  by (cases c)
     (auto simp: machine_add_step_def register_plan_step_def
        dest: step_event_error_unchanged run_event_error_unchanged register_error_unchanged
        split: option.splits if_splits)

lemma machine_success_valid: "machine_step s c = (s', None) \<Longrightarrow> validate s' = None"
  by (cases c)
     (auto simp: machine_add_step_def register_plan_step_def
        dest: step_event_accepted run_event_accepted register_accepted split: option.splits if_splits)

lemma machine_post_cases:
  "machine_post s c = s \<or> (validate (machine_post s c) = None \<and> snd (machine_step s c) = None)"
proof (cases "machine_step s c")
  case (Pair s' err)
  then show ?thesis
    by (cases err)
       (auto simp: machine_post_def dest: machine_error_unchanged machine_success_valid)
qed

lemma machine_terminal_absorbs:
  assumes "validate s = None" "terminal_run (run_status s)"
  shows "machine_post s c = s"
proof (cases "machine_step s c")
  case (Pair s' err)
  have "err \<noteq> None"
  proof
    assume "err = None"
    with Pair assms show False
      by (cases c)
         (auto simp: machine_add_step_def register_plan_step_def step_event_enabled_def
            run_event_enabled_def terminal_run_def
            dest!: step_event_accepted run_event_accepted split: if_splits)
  qed
  with Pair show ?thesis by (auto simp: machine_post_def dest: machine_error_unchanged)
qed

interpretation run_machine: absorbing_machine machine_post "\<lambda>s. validate s = None"
  "\<lambda>s. terminal_run (run_status s)"
proof unfold_locales
  show "validate s = None \<Longrightarrow> validate (machine_post s c) = None" for s c
    using machine_post_cases [of s c] by auto
  show "validate s = None \<Longrightarrow> terminal_run (run_status s) \<Longrightarrow> machine_post s c = s" for s c
    by (rule machine_terminal_absorbs)
qed

text \<open>How the record of one Step may change over time.\<close>

definition step_advances :: "step_state \<Rightarrow> step_state \<Rightarrow> bool" where
  "step_advances a b \<longleftrightarrow>
     step_id b = step_id a \<and> step_name b = step_name a \<and> step_created_at b = step_created_at a \<and>
     (terminal_step (step_status a) \<longrightarrow> b = a) \<and>
     (step_status b = S_PENDING \<longrightarrow> step_status a = S_PENDING) \<and>
     (step_started_at a \<noteq> None \<longrightarrow> step_started_at b = step_started_at a)"

lemma step_advances_refl [simp]: "step_advances a a"
  by (simp add: step_advances_def)

lemma step_advances_trans: "step_advances a b \<Longrightarrow> step_advances b c \<Longrightarrow> step_advances a c"
  unfolding step_advances_def by metis

lemma step_effect_advances:
  assumes "step_validate st = None" "step_transition (step_status st) (se_type e) = Some target"
  shows "step_advances st (step_event_effect st e target)"
  using assms
  by (cases "step_status st"; cases "se_type e")
     (auto simp: step_advances_def step_event_effect_def step_valid_iff)

lemma machine_step_advances:
  assumes "validate s = None" "map_of (steps s) k = Some st"
  shows "\<exists>st'. map_of (steps (machine_post s c)) k = Some st' \<and> step_advances st st'"
proof (cases "machine_step s c")
  case (Pair s' err)
  show ?thesis
  proof (cases err)
    case (Some x)
    with Pair have "s' = s" by (auto dest: machine_error_unchanged)
    with Pair assms show ?thesis by (simp add: machine_post_def)
  next
    case None
    show ?thesis
    proof (cases c)
      case (ApplyStepEvent e)
      with Pair None obtain st0 target where en: "step_event_enabled s e st0 target"
          and s': "s' = step_event_result s e st0 target"
        by (auto dest: step_event_accepted)
      have "step_advances st0 (step_event_effect st0 e target)"
        using en valid_step(2) [OF assms(1)] by (auto simp: step_event_enabled_def step_effect_advances)
      with Pair en s' assms(2) show ?thesis
        by (auto simp: machine_post_def step_event_result_def step_event_enabled_def)
    qed (use Pair None assms in \<open>auto simp: machine_post_def machine_add_step_def register_plan_step_def
           register_result_def map_add_Some_iff map_add_def
           dest!: run_event_accepted register_accepted [OF assms(1)] split: if_splits option.splits\<close>)
  qed
qed

text \<open>Every Step of one state is still there in the other, and only advanced.\<close>

definition steps_advance :: "agent_state \<Rightarrow> agent_state \<Rightarrow> bool" where
  "steps_advance s s' \<longleftrightarrow>
     (\<forall>k st. map_of (steps s) k = Some st \<longrightarrow>
        (\<exists>st'. map_of (steps s') k = Some st' \<and> step_advances st st'))"

interpretation step_evolution: evolving_machine machine_post "\<lambda>s. validate s = None" steps_advance
proof unfold_locales
  show "steps_advance s s" for s by (simp add: steps_advance_def)
  show "steps_advance s t \<Longrightarrow> steps_advance t u \<Longrightarrow> steps_advance s u" for s t u
    by (fastforce simp: steps_advance_def intro: step_advances_trans)
  show "validate s = None \<Longrightarrow> steps_advance s (machine_post s c)" for s c
    by (simp add: steps_advance_def machine_step_advances)
qed

text \<open>Events alone never move the clock of the Run backwards.\<close>

definition event_post :: "agent_state \<Rightarrow> run_state_event + step_state_event \<Rightarrow> agent_state" where
  "event_post s ev =
     (case ev of Inl e \<Rightarrow> fst (apply_run_event s e) | Inr e \<Rightarrow> fst (apply_step_event s e))"

lemma event_post_machine:
  "event_post s ev = machine_post s (case ev of Inl e \<Rightarrow> ApplyRunEvent e | Inr e \<Rightarrow> ApplyStepEvent e)"
  by (simp add: event_post_def machine_post_def split: sum.split)

lemma event_post_clock: "instant (updated_at s) \<le> instant (updated_at (event_post s ev))"
proof (cases ev)
  case (Inl e)
  obtain s' err where out: "apply_run_event s e = (s', err)" by fastforce
  with Inl show ?thesis
    by (cases err)
       (auto simp: event_post_def run_event_enabled_def
          dest!: run_event_accepted run_event_error_unchanged)
next
  case (Inr e)
  obtain s' err where out: "apply_step_event s e = (s', err)" by fastforce
  with Inr show ?thesis
    by (cases err)
       (auto simp: event_post_def step_event_enabled_def step_event_result_def
          dest!: step_event_accepted step_event_error_unchanged)
qed

interpretation run_clock: monotone_machine event_post "\<lambda>s. validate s = None"
  "\<lambda>s. instant (updated_at s)"
proof unfold_locales
  show "validate s = None \<Longrightarrow> validate (event_post s ev) = None" for s ev
    unfolding event_post_machine by (rule run_machine.post_inv)
  show "instant (updated_at s) \<le> instant (updated_at (event_post s ev))" for s ev
    by (rule event_post_clock)
qed

section \<open>Driving a Run to its end\<close>

definition cancel_step_event :: "py_datetime \<Rightarrow> string \<Rightarrow> step_state_event" where
  "cancel_step_event t k =
     \<lparr>se_type = SE_CANCELLED, se_step_id = k, se_occurred_at = t,
      se_error_code = Some ''RUN_CANCELLED'', se_error_message = None\<rparr>"

definition cancel_run_event :: "py_datetime \<Rightarrow> run_state_event" where
  "cancel_run_event t =
     \<lparr>re_type = RE_CANCELLED, re_occurred_at = t, re_stop_reason = Some SR_USER_CANCELLED,
      re_final_output = None, re_error_code = Some ''RUN_CANCELLED'', re_error_message = None\<rparr>"

definition cancel_calls :: "py_datetime \<Rightarrow> string list \<Rightarrow> machine_call list" where
  "cancel_calls t ks =
     map (ApplyStepEvent \<circ> cancel_step_event t) ks @ [ApplyRunEvent (cancel_run_event t)]"

definition all_before :: "agent_state \<Rightarrow> py_datetime \<Rightarrow> bool" where
  "all_before s t \<longleftrightarrow> instant (updated_at s) \<le> instant t \<and>
     (\<forall>k st. map_of (steps s) k = Some st \<longrightarrow> instant (step_created_at st) \<le> instant t \<and>
        (\<forall>b. step_started_at st = Some b \<longrightarrow> instant b \<le> instant t))"

lemma run_cancelled_code [simp]: "safe_error_code ''RUN_CANCELLED''" "\<not> blank ''RUN_CANCELLED''"
  by (simp_all add: safe_error_code_def error_code_char_def is_alnum_ascii_def blank_def is_space_def
      Let_def)

lemma cancel_step_event_built:
  "is_utc t \<Longrightarrow> \<not> blank k \<Longrightarrow> step_event_check (cancel_step_event t k) = None"
  by (simp add: step_event_check_def cancel_step_event_def validate_utc_datetime_def
      validate_error_message_def validate_error_code_def)

lemma cancel_run_event_built: "is_utc t \<Longrightarrow> run_event_check (cancel_run_event t) = None"
  by (simp add: run_event_check_def cancel_run_event_def validate_utc_datetime_def
      validate_error_message_def validate_error_code_def cancellation_stop_def)

lemma cancel_active_step:
  assumes "validate s = None" "\<not> terminal_run (run_status s)" "is_utc t" "all_before s t"
      and "k \<in> active_step_ids s" "\<not> blank k"
  shows "\<exists>s'. machine_post s (ApplyStepEvent (cancel_step_event t k)) = s' \<and> validate s' = None \<and>
           run_status s' = run_status s \<and> all_before s' t \<and>
           active_step_ids s' = active_step_ids s - {k}"
proof -
  let ?e = "cancel_step_event t k"
  obtain st where st: "map_of (steps s) k = Some st" "active_status (step_status st)"
    using assms(5) by (auto simp: valid_active_iff [OF assms(1)])
  have en: "step_event_enabled s ?e st S_CANCELLED"
    using assms(2,4) st
    by (cases "step_status st")
       (auto simp: step_event_enabled_def cancel_step_event_def all_before_def)
  note built = cancel_step_event_built [OF assms(3,6)]
  note acc = step_event_accept [OF assms(1) built en]
  from st assms(4) have "all_before (step_event_result s ?e st S_CANCELLED) t"
    by (auto simp: all_before_def step_event_result_def cancel_step_event_def step_event_effect_def)
  with acc step_event_result_valid [OF assms(1) built en] show ?thesis
    by (auto simp: machine_post_def step_event_result_def active_effect_def cancel_step_event_def)
qed

lemma cancel_drains:
  assumes "validate s = None" "\<not> terminal_run (run_status s)" "is_utc t" "all_before s t"
      and "distinct ks" "set ks = active_step_ids s" "\<forall>k \<in> active_step_ids s. \<not> blank k"
  shows "run_status (after_all machine_post s (cancel_calls t ks)) = R_CANCELLED"
  using assms
proof (induction ks arbitrary: s)
  case Nil
  then have en: "run_event_enabled s (cancel_run_event t) R_CANCELLED"
    by (cases "run_status s")
       (auto simp: run_event_enabled_def cancel_run_event_def all_before_def)
  show ?case
    using run_event_accept [OF Nil.prems(1) cancel_run_event_built [OF Nil.prems(3)] en]
    by (simp add: cancel_calls_def machine_post_def)
next
  case (Cons k ks)
  obtain s' where s': "machine_post s (ApplyStepEvent (cancel_step_event t k)) = s'"
      "validate s' = None" "run_status s' = run_status s" "all_before s' t"
      "active_step_ids s' = active_step_ids s - {k}"
    using cancel_active_step [OF Cons.prems(1-4), of k] Cons.prems(6,7) by (metis list.set_intros(1))
  have "run_status (after_all machine_post s' (cancel_calls t ks)) = R_CANCELLED"
    using s' Cons.prems by (intro Cons.IH) auto
  with s'(1) show ?case by (simp add: cancel_calls_def)
qed

section \<open>Properties\<close>

text \<open>
  C9. Atomicity: whatever the call (Run event, Step event, registration of a Step), the state is
  either replaced by a fully validated one or, when the call raises, left exactly as it was. No
  call ever leaves a half-applied event behind.
\<close>

theorem machine_atomic:
  "(snd (machine_step s c) = None \<and> validate (fst (machine_step s c)) = None) \<or>
   (snd (machine_step s c) \<noteq> None \<and> fst (machine_step s c) = s)"
  by (cases "machine_step s c"; cases "snd (machine_step s c)")
     (auto dest: machine_error_unchanged machine_success_valid)

text \<open>
  C5. Exact acceptance of Step events: on a valid state an event that was built is accepted
  precisely when the Run is live, the Step exists, the transition table has an entry, the event
  is not older than the Run's last update, the Step's creation and its start, and a start finds
  the Run RUNNING; the accepted event rewrites that one Step, the clock and the active set as the
  table says and nothing else.
\<close>

theorem step_event_exact:
  assumes "validate s = None" "step_event_check e = None"
  shows "apply_step_event s e = (s', None) \<longleftrightarrow>
    (\<exists>st target. step_event_enabled s e st target \<and> s' = step_event_result s e st target)"
  using assms step_event_accept [OF assms] step_event_accepted [of s e s'] by auto

definition sample_finish :: step_state_event where
  "sample_finish = \<lparr>se_type = SE_SUCCEEDED, se_step_id = ''a'', se_occurred_at = DT (Some 0) 9,
     se_error_code = None, se_error_message = None\<rparr>"

lemma sample_finish_built: "step_event_check sample_finish = None"
  by (simp add: step_event_check_def sample_finish_def validate_utc_datetime_def
      validate_error_message_def blank_def is_space_def)

theorem step_event_exact_witness:
  "validate sample_state = None \<and> step_event_check sample_finish = None \<and>
   (\<exists>s'. apply_step_event sample_state sample_finish = (s', None) \<and>
         active_step_ids s' = {} \<and> updated_at s' = DT (Some 0) 9)"
proof -
  let ?st = "the (map_of (steps sample_state) ''a'')"
  have "step_event_enabled sample_state sample_finish ?st S_SUCCEEDED"
    by (simp add: step_event_enabled_def sample_finish_def sample_state_def new_step_def)
  then have "apply_step_event sample_state sample_finish =
      (step_event_result sample_state sample_finish ?st S_SUCCEEDED, None)"
    using step_event_exact [OF sample_state_valid sample_finish_built] by blast
  moreover have "active_step_ids (step_event_result sample_state sample_finish ?st S_SUCCEEDED) = {} \<and>
      updated_at (step_event_result sample_state sample_finish ?st S_SUCCEEDED) = DT (Some 0) 9"
    by (simp add: step_event_result_def active_effect_def sample_finish_def sample_state_def)
  ultimately show ?thesis using sample_state_valid sample_finish_built by blast
qed

text \<open>
  C16. Exact acceptance of Run events: on a valid state an event that was built is accepted
  precisely when the transition table has an entry, the event is not older than the last update
  and, for a terminal target, no Step is active; the Steps are untouched and the Run takes the
  status, clock, stop reason, output and error of the event.
\<close>

theorem run_event_exact:
  assumes "validate s = None" "run_event_check e = None"
  shows "apply_run_event s e = (s', None) \<longleftrightarrow>
    (\<exists>target. run_event_enabled s e target \<and> s' = run_event_effect (sort_steps s) e target)"
  using assms run_event_accept [OF assms] run_event_accepted [of s e s'] by auto

theorem run_event_exact_witness:
  "validate sample_state = None \<and> run_event_check (cancel_run_event (DT (Some 0) 9)) = None \<and>
   (\<forall>s'. apply_run_event sample_state (cancel_run_event (DT (Some 0) 9)) \<noteq> (s', None))"
proof -
  note built = cancel_run_event_built [OF is_utc_DT, of 9]
  have "\<not> run_event_enabled sample_state (cancel_run_event (DT (Some 0) 9)) target" for target
    by (auto simp: run_event_enabled_def cancel_run_event_def sample_state_def)
  then show ?thesis
    using run_event_exact [OF sample_state_valid built] sample_state_valid built by blast
qed

text \<open>
  C6. Consistency at every moment: from a valid state, after any sequence of calls (accepted or
  refused), the active set is exactly the set of Steps that are RUNNING or waiting for approval,
  every Step is valid under its own key, the stop reason matches the Run status, and a terminal
  Run has no active Step left.
\<close>

theorem history_consistent:
  assumes "validate s = None" "s' = after_all machine_post s cs"
  shows "active_step_ids s' =
           {k. \<exists>st. map_of (steps s') k = Some st \<and> active_status (step_status st)} \<and>
         (\<forall>k st. map_of (steps s') k = Some st \<longrightarrow> step_id st = k \<and> step_validate st = None) \<and>
         stop_ok (run_status s') (run_stop_reason s') \<and>
         (terminal_run (run_status s') \<longrightarrow>
            (\<forall>k st. map_of (steps s') k = Some st \<longrightarrow> \<not> active_status (step_status st)))"
proof -
  from run_machine.history_inv [OF assms(1), of cs] assms(2) have v: "validate s' = None" by simp
  moreover from v have "terminal_run (run_status s') \<longrightarrow> active_step_ids s' = {}"
    by (simp add: valid_iff run_ok_def)
  ultimately show ?thesis
    using valid_active_iff [OF v] by (auto simp: valid_iff run_ok_def steps_ok_def)
qed

theorem history_consistent_witness:
  "validate sample_state = None \<and>
   stop_ok (run_status (after_all machine_post sample_state [ApplyStepEvent sample_finish]))
     (run_stop_reason (after_all machine_post sample_state [ApplyStepEvent sample_finish]))"
  using history_consistent [OF sample_state_valid refl, of "[ApplyStepEvent sample_finish]"]
    sample_state_valid by simp

text \<open>
  C10. Terminal Runs are final: once a valid Run is SUCCEEDED, FAILED or CANCELLED, no sequence of
  events or registrations changes anything in it.
\<close>

theorem terminal_run_final:
  assumes "validate s = None" "terminal_run (run_status s)"
  shows "after_all machine_post s cs = s"
  using assms by (rule run_machine.history_final)

definition sample_failed :: agent_state where
  "sample_failed =
     sample_state\<lparr>run_status := R_FAILED, run_stop_reason := Some SR_UNHANDLED_ERROR,
       active_step_ids := {}, steps := []\<rparr>"

theorem terminal_run_final_witness:
  "validate sample_failed = None \<and> terminal_run (run_status sample_failed) \<and>
   after_all machine_post sample_failed [ApplyStepEvent sample_finish, AddStep ''x'' ''x'' (DT (Some 0) 9)
     (DT (Some 0) 9)] = sample_failed"
proof -
  have "validate sample_failed = None" "terminal_run (run_status sample_failed)"
    by (simp_all add: sample_failed_def sample_state_def validate_def cancellation_stop_def)
  then show ?thesis using terminal_run_final by blast
qed

text \<open>
  C11. Steps only advance: over any sequence of calls a registered Step never disappears, keeps its
  id, name and creation time, never returns to PENDING, keeps its start time once it has one (so
  it is started at most once), and is frozen for good when it reaches a terminal status.
\<close>

theorem step_history_advances:
  assumes "validate s = None" "map_of (steps s) k = Some st"
  shows "\<exists>st'. map_of (steps (after_all machine_post s cs)) k = Some st' \<and> step_advances st st'"
  using step_evolution.history_rel [OF assms(1), of cs] assms(2) by (simp add: steps_advance_def)

theorem step_history_advances_witness:
  "\<exists>st'. map_of (steps (after_all machine_post sample_state [ApplyStepEvent sample_finish])) ''a'' = Some st' \<and>
     step_started_at st' = Some (DT (Some 0) 2)"
proof -
  obtain st where "map_of (steps sample_state) ''a'' = Some st" "step_started_at st = Some (DT (Some 0) 2)"
    by (simp add: sample_state_def)
  with step_history_advances [OF sample_state_valid this(1), of "[ApplyStepEvent sample_finish]"]
  show ?thesis by (auto simp: step_advances_def)
qed

text \<open>
  Event time: a sequence of Run and Step events never moves the Run's update time backwards.
\<close>

theorem event_time_monotone:
  assumes "validate s = None"
  shows "instant (updated_at s) \<le> instant (updated_at (after_all event_post s evs))"
  using assms by (rule run_clock.history_rank)

text \<open>
  C17. A live Run can always be ended: from every valid CREATED or RUNNING state, cancelling each
  active Step and then the Run, at a time after everything the state records, is accepted event
  by event and leaves the Run CANCELLED.
\<close>

theorem live_run_can_end:
  assumes "validate s = None" "\<not> terminal_run (run_status s)" "is_utc t" "all_before s t"
      and "\<forall>k \<in> active_step_ids s. \<not> blank k"
  shows "run_status
    (after_all machine_post s (cancel_calls t (sorted_list_of_set (active_step_ids s)))) = R_CANCELLED"
proof -
  have "finite (active_step_ids s)"
    by (rule finite_subset [OF _ finite_dom_map_of [of "steps s"]])
       (auto simp: valid_active_iff [OF assms(1)])
  then show ?thesis using assms by (intro cancel_drains) simp_all
qed

theorem live_run_can_end_witness:
  "run_status (after_all machine_post sample_state (cancel_calls (DT (Some 0) 7) [''a''])) = R_CANCELLED"
proof -
  have "all_before sample_state (DT (Some 0) 7)" "\<not> terminal_run (run_status sample_state)"
      "\<forall>k \<in> active_step_ids sample_state. \<not> blank k" "active_step_ids sample_state = {''a''}"
    by (auto simp: all_before_def sample_state_def new_step_def blank_def is_space_def)
  with live_run_can_end [OF sample_state_valid, of "DT (Some 0) 7"] show ?thesis by simp
qed

end
