(* ===== verification/Planning.thy ===== *)
theory Planning
  imports Cancellation
begin

text \<open>
  \<^verbatim>\<open>core/runtime/planning.py\<close>: the immutable plan a Run executes, its validator, the
  deterministic one-step plan and the classification of plan shapes. The fields of a plan are
  typed here, so the \<^verbatim>\<open>isinstance\<close> checks of the source hold by construction; every check
  on values is kept. The four Chinese texts of the one-step plan are carried as the bytes of
  their UTF-8 encoding.
\<close>

datatype plan_source = DETERMINISTIC | MODEL_GENERATED | LEGACY_ADAPTER
datatype risk_level = LOW | MEDIUM | HIGH
datatype execution_kind = AGENT | SYNTHESIS
datatype output_policy = INTERNAL | FINAL_PASSTHROUGH | FINAL_SYNTHESIS

record task_capability_requirements =
  requires_planning :: bool
  requires_tools :: bool
  requires_rag :: bool
  requires_multi_agent :: bool
  requires_code_reasoning :: bool
  requires_structured_output :: bool
  requires_long_reasoning :: bool
  req_risk_level :: risk_level
  estimated_steps :: int

record plan_step =
  ps_step_id :: string
  ps_title :: string
  ps_description :: string
  ps_depends_on :: "string list"
  ps_completion_criteria :: string
  ps_preferred_agent :: string
  ps_capability_requirements :: task_capability_requirements
  ps_execution_kind :: execution_kind
  ps_output_policy :: output_policy

record plan =
  plan_id :: string
  plan_version :: int
  task_summary :: string
  plan_steps :: "plan_step list"
  plan_created_at :: py_datetime
  plan_source_of :: plan_source

datatype plan_error =
    EstimatedStepsNotPositive
  | PlanIdEmpty | PlanVersionNotPositive | PlanCreatedAtNotUtc | PlanWithoutSteps
  | PlanStepIdEmpty | PlanTitleEmpty | PlanDependencyEmpty | PlanCriteriaEmpty | PlanAgentEmpty

text \<open>\<^verbatim>\<open>TaskCapabilityRequirements.__post_init__\<close>\<close>

definition requirements_check :: "task_capability_requirements \<Rightarrow> plan_error option" where
  "requirements_check r = (if estimated_steps r \<le> 0 then Some EstimatedStepsNotPositive else None)"

text \<open>\<^verbatim>\<open>a != b\<close> on aware datetimes compares instants.\<close>

definition aware_ne :: "py_datetime \<Rightarrow> py_datetime \<Rightarrow> bool" where
  "aware_ne a b \<longleftrightarrow> instant a \<noteq> instant b"

definition plan_step_check :: "plan_step \<Rightarrow> plan_error option" where
  "plan_step_check st = first_error
     [(blank (ps_step_id st), PlanStepIdEmpty),
      (blank (ps_title st), PlanTitleEmpty),
      (\<not> list_all (\<lambda>d. \<not> blank d) (ps_depends_on st), PlanDependencyEmpty),
      (blank (ps_completion_criteria st), PlanCriteriaEmpty),
      (blank (ps_preferred_agent st), PlanAgentEmpty)]"

text \<open>\<^verbatim>\<open>PlanValidator.validate\<close>\<close>

definition plan_validate :: "plan \<Rightarrow> plan_error option" where
  "plan_validate p = or_raise
     (first_error
        [(blank (plan_id p), PlanIdEmpty),
         (plan_version p \<le> 0, PlanVersionNotPositive),
         (utcoffset (plan_created_at p) = None \<or>
            aware_ne (astimezone_utc (plan_created_at p)) (plan_created_at p), PlanCreatedAtNotUtc),
         (plan_steps p = [], PlanWithoutSteps)])
     (first_some plan_step_check (plan_steps p))"

definition text_summary :: string where
  "text_summary = map (char_of :: nat \<Rightarrow> char)
     [229, 174, 140, 230, 136, 144, 229, 189, 147, 229, 137, 141, 230, 153, 186, 232,
      131, 189, 228, 189, 147, 232, 175, 183, 230, 177, 130, 227, 128, 130]"

definition text_title :: string where
  "text_title = map (char_of :: nat \<Rightarrow> char)
     [231, 148, 159, 230, 136, 144, 229, 155, 158, 231, 173, 148]"

definition text_description :: string where
  "text_description = map (char_of :: nat \<Rightarrow> char)
     [229, 159, 186, 228, 186, 142, 229, 183, 178, 230, 158, 132, 229, 187, 186, 228,
      184, 138, 228, 184, 139, 230, 150, 135, 231, 148, 159, 230, 136, 144, 229, 189,
      147, 229, 137, 141, 232, 175, 183, 230, 177, 130, 231, 154, 132, 229, 155, 158,
      231, 173, 148, 227, 128, 130]"

definition text_criteria :: string where
  "text_criteria = map (char_of :: nat \<Rightarrow> char)
     [229, 183, 178, 231, 148, 159, 230, 136, 144, 228, 184, 142, 229, 189, 147, 229,
      137, 141, 232, 175, 183, 230, 177, 130, 231, 155, 184, 229, 133, 179, 231, 154,
      132, 229, 155, 158, 231, 173, 148, 227, 128, 130]"

definition create_single_step_plan ::
  "string \<Rightarrow> task_capability_requirements \<Rightarrow> py_datetime \<Rightarrow> plan_error + plan" where
  "create_single_step_plan agent req now =
     (let p = \<lparr>plan_id = ''deterministic-'' @ agent @ ''-plan'', plan_version = 1,
               task_summary = text_summary,
               plan_steps =
                 [\<lparr>ps_step_id = ''answer'', ps_title = text_title,
                   ps_description = text_description, ps_depends_on = [],
                   ps_completion_criteria = text_criteria, ps_preferred_agent = agent,
                   ps_capability_requirements = req, ps_execution_kind = AGENT,
                   ps_output_policy = FINAL_PASSTHROUGH\<rparr>],
               plan_created_at = now, plan_source_of = DETERMINISTIC\<rparr>
      in case plan_validate p of Some e \<Rightarrow> Inl e | None \<Rightarrow> Inr p)"

definition compute_plan_shape :: "plan \<Rightarrow> string" where
  "compute_plan_shape p =
     (let finals = filter (\<lambda>st. ps_output_policy st \<noteq> INTERNAL) (plan_steps p);
          internals = filter (\<lambda>st. ps_output_policy st = INTERNAL) (plan_steps p)
      in case plan_steps p of
           [] \<Rightarrow> ''unknown''
         | _ \<Rightarrow>
           (case finals of
              [final_step] \<Rightarrow>
                if length (plan_steps p) = 1 then
                  (if ps_output_policy final_step = FINAL_PASSTHROUGH
                   then (if ps_preferred_agent final_step = ''core_router'' then ''0'' else ''1'')
                   else ''unknown'')
                else if length internals = length (plan_steps p) - 1 \<and>
                        ps_output_policy final_step = FINAL_SYNTHESIS
                then (if length internals = 1 then ''2'' else ''3'')
                else ''unknown''
            | _ \<Rightarrow> ''unknown''))"

section \<open>Properties\<close>

lemma plan_validate_iff:
  "plan_validate p = None \<longleftrightarrow>
     \<not> blank (plan_id p) \<and> 0 < plan_version p \<and> utcoffset (plan_created_at p) \<noteq> None \<and>
     plan_steps p \<noteq> [] \<and> (\<forall>st \<in> set (plan_steps p). plan_step_check st = None)"
  by (auto simp: plan_validate_def guard_simps aware_ne_def astimezone_utc_def not_le
      split: option.splits)

text \<open>
  The UTC requirement of the plan validator is never enforced: it compares the creation time
  with its own conversion to UTC, and aware datetimes compare by instant, so a plan stays exactly
  as acceptable when its creation time is moved to any other offset.
\<close>

theorem plan_created_at_offset_ignored:
  "plan_validate (p\<lparr>plan_created_at := DT (Some offset) t\<rparr>) =
   plan_validate (p\<lparr>plan_created_at := DT (Some 0) t\<rparr>)"
  by (simp add: plan_validate_def aware_ne_def astimezone_utc_def)

lemma filter_split_length:
  "length xs = length (filter P xs) + length (filter (\<lambda>x. \<not> P x) xs)"
  by (simp add: sum_length_filter_compl)

text \<open>
  Plan shapes: a plan gets one of the four execution shapes exactly when it has a single
  output step and that step passes its agent's answer through as the only step (0 for the core
  router, 1 otherwise) or synthesises the answers of one (2) or several (3) internal steps.
\<close>

theorem compute_plan_shape_exact:
  "compute_plan_shape p =
    (if \<exists>f. plan_steps p = [f] \<and> ps_output_policy f = FINAL_PASSTHROUGH
     then (if ps_preferred_agent (hd (plan_steps p)) = ''core_router'' then ''0'' else ''1'')
     else if length (plan_steps p) \<ge> 2 \<and>
       (\<exists>f. filter (\<lambda>st. ps_output_policy st \<noteq> INTERNAL) (plan_steps p) = [f] \<and>
            ps_output_policy f = FINAL_SYNTHESIS)
     then (if length (plan_steps p) = 2 then ''2'' else ''3'')
     else ''unknown'')"
proof -
  let ?fin = "filter (\<lambda>st. ps_output_policy st \<noteq> INTERNAL) (plan_steps p)"
  let ?int = "filter (\<lambda>st. ps_output_policy st = INTERNAL) (plan_steps p)"
  have len: "length (plan_steps p) = length ?fin + length ?int"
    using filter_split_length [of "plan_steps p" "\<lambda>st. ps_output_policy st \<noteq> INTERNAL"] by simp
  show ?thesis
  proof (cases "\<exists>f. ?fin = [f]")
    case True
    then obtain f where f: "?fin = [f]" by blast
    then have ints: "length ?int = length (plan_steps p) - 1" "plan_steps p \<noteq> []"
      using len by auto
    show ?thesis
    proof (cases "plan_steps p")
      case (Cons a rest)
      with f ints show ?thesis
        by (cases rest) (auto simp: compute_plan_shape_def Let_def split: if_splits)
    qed (use ints in simp)
  next
    case False
    then have "compute_plan_shape p = ''unknown''"
      by (auto simp: compute_plan_shape_def Let_def split: list.splits)
    moreover have "\<not> (\<exists>f. plan_steps p = [f] \<and> ps_output_policy f = FINAL_PASSTHROUGH)"
      using False by auto
    ultimately show ?thesis using False by auto
  qed
qed

lemma texts_not_blank: "\<not> blank text_title" "\<not> blank text_criteria"
  by (simp_all add: text_title_def text_criteria_def blank_def is_space_def)

text \<open>
  The deterministic plan is well formed: for every non-blank agent it validates, has exactly
  the step \<^verbatim>\<open>answer\<close> with no dependencies, and its shape is 0 for the core router and 1
  for every other agent.
\<close>

theorem single_step_plan_shape:
  assumes "\<not> blank agent" "utcoffset now = Some z"
  shows "\<exists>p. create_single_step_plan agent req now = Inr p \<and>
           map ps_step_id (plan_steps p) = [''answer''] \<and>
           compute_plan_shape p = (if agent = ''core_router'' then ''0'' else ''1'')"
proof -
  have "\<not> blank (''deterministic-'' @ agent @ ''-plan'')" "\<not> blank ''answer''"
    by (simp_all add: blank_def is_space_def)
  then show ?thesis
    using assms texts_not_blank
    by (simp add: create_single_step_plan_def Let_def plan_validate_def plan_step_check_def aware_ne_def
        astimezone_utc_def compute_plan_shape_def)
qed

end
