(* ===== verification/Plan_Graph.thy ===== *)
theory Plan_Graph
  imports Planning "HOL-Library.Product_Lexorder"
begin

text \<open>
  \<^verbatim>\<open>core/runtime/plan_graph.py\<close>: validation of the dependency structure of a plan and the
  construction of its DAG view. The heap of \<^verbatim>\<open>_stable_kahn\<close> is the sorted list of its
  entries: \<^verbatim>\<open>heapify\<close> sorts, \<^verbatim>\<open>heappush\<close> inserts in order and
  \<^verbatim>\<open>heappop\<close> takes the head. \<^verbatim>\<open>positions\<close> in \<^verbatim>\<open>_find_cycle\<close> holds the
  position of each id on the current path, so it is read off the path itself.
\<close>

section \<open>The graph view\<close>

datatype graph_error =
    PlanInvalid plan_error
  | DuplicateStepId string
  | MissingDependency string string
  | SelfDependency string string
  | DuplicateDependency string string
  | DependencyCycle (cycle_path: "string list") (unresolved_step_ids: "string list")
  | CycleAssertion

record plan_graph =
  pg_plan_id :: string
  pg_plan_version :: int
  pg_step_ids :: "string list"
  topological_order :: "string list"
  root_step_ids :: "string list"
  leaf_step_ids :: "string list"
  dependencies :: "(string, string list) dict"
  dependents :: "(string, string list) dict"

text \<open>\<^verbatim>\<open>dict.get(k, ())\<close>, also \<^verbatim>\<open>d[k]\<close> where the key is known to be present\<close>

definition get_ids :: "(string, string list) dict \<Rightarrow> string \<Rightarrow> string list" where
  "get_ids d k = (case map_of d k of None \<Rightarrow> [] | Some v \<Rightarrow> v)"

definition dependencies_of :: "plan_graph \<Rightarrow> string \<Rightarrow> string list" where
  "dependencies_of g k = get_ids (dependencies g) k"

definition dependents_of :: "plan_graph \<Rightarrow> string \<Rightarrow> string list" where
  "dependents_of g k = get_ids (dependents g) k"

definition contains_step :: "plan_graph \<Rightarrow> string \<Rightarrow> bool" where
  "contains_step g k \<longleftrightarrow> map_of (dependencies g) k \<noteq> None"

section \<open>Validation\<close>

text \<open>\<^verbatim>\<open>index\<close>: the position of each id; a repeated id keeps its last position.\<close>

definition index_of :: "string list \<Rightarrow> (string, nat) dict" where
  "index_of ids = fold (\<lambda>(p, k) d. AList.update k p d) (enumerate 0 ids) []"

definition get_index :: "(string, nat) dict \<Rightarrow> string \<Rightarrow> nat" where
  "get_index d k = (case map_of d k of None \<Rightarrow> 0 | Some p \<Rightarrow> p)"

fun first_duplicate :: "string set \<Rightarrow> string list \<Rightarrow> string option" where
  "first_duplicate seen [] = None"
| "first_duplicate seen (k # ks) =
     (if k \<in> seen then Some k else first_duplicate (insert k seen) ks)"

text \<open>The inner loop over \<^verbatim>\<open>step.depends_on\<close>.\<close>

fun scan_depends_on ::
  "(string, nat) dict \<Rightarrow> string \<Rightarrow> string set \<Rightarrow> string list \<Rightarrow> (string, string list) dict
     \<Rightarrow> graph_error + (string, string list) dict" where
  "scan_depends_on index sid seen [] dts = Inr dts"
| "scan_depends_on index sid seen (d # ds) dts =
     (if map_of index d = None then Inl (MissingDependency sid d)
      else if d = sid then Inl (SelfDependency sid d)
      else if d \<in> seen then Inl (DuplicateDependency sid d)
      else scan_depends_on index sid (insert d seen) ds
             (AList.update d (get_ids dts d @ [sid]) dts))"

text \<open>The outer loop: both adjacency dictionaries.\<close>

fun scan_steps ::
  "(string, nat) dict \<Rightarrow> plan_step list \<Rightarrow> (string, string list) dict \<Rightarrow> (string, string list) dict
     \<Rightarrow> graph_error + (string, string list) dict \<times> (string, string list) dict" where
  "scan_steps index [] deps dts = Inr (deps, dts)"
| "scan_steps index (st # sts) deps dts =
     (case scan_depends_on index (ps_step_id st) {} (ps_depends_on st) dts of
        Inl e \<Rightarrow> Inl e
      | Inr dts' \<Rightarrow>
          scan_steps index sts (AList.update (ps_step_id st) (ps_depends_on st) deps) dts')"

text \<open>\<^verbatim>\<open>_stable_kahn\<close>\<close>

type_synonym heap = "(nat \<times> string) list"

definition get_degree :: "(string, int) dict \<Rightarrow> string \<Rightarrow> int" where
  "get_degree d k = (case map_of d k of None \<Rightarrow> 0 | Some n \<Rightarrow> n)"

fun release_dependents ::
  "(string, nat) dict \<Rightarrow> string list \<Rightarrow> (string, int) dict \<Rightarrow> heap \<Rightarrow> (string, int) dict \<times> heap" where
  "release_dependents index [] indegree ready = (indegree, ready)"
| "release_dependents index (d # ds) indegree ready =
     (let n = get_degree indegree d - 1;
          indegree' = AList.update d n indegree;
          ready' = (if n = 0 then insort (get_index index d, d) ready else ready)
      in release_dependents index ds indegree' ready')"

definition positive :: "(string, int) dict \<Rightarrow> string set" where
  "positive indegree = {k. 0 < get_degree indegree k}"

lemma finite_positive [simp]: "finite (positive d)"
  by (rule finite_subset [of _ "fst ` set d"])
     (auto simp: positive_def get_degree_def key_iff split: option.splits)

lemma get_degree_update [simp]:
  "get_degree (AList.update k n d) = (get_degree d)(k := n)"
  by (rule ext) (simp add: get_degree_def)

lemma release_measure:
  "release_dependents index ds indegree ready = (indegree', ready') \<Longrightarrow>
   length ready' + card (positive indegree') = length ready + card (positive indegree)"
proof (induction ds arbitrary: indegree ready)
  case (Cons d ds)
  let ?n = "get_degree indegree d - 1"
  let ?in = "AList.update d ?n indegree"
  have "card (positive ?in) + (if ?n = 0 then 1 else 0) = card (positive indegree)"
  proof (cases "?n = 0")
    case True
    then have "positive ?in = positive indegree - {d}" "d \<in> positive indegree"
      by (auto simp: positive_def)
    with True show ?thesis
      by (simp add: card_Diff_singleton) (metis Suc_pred card_gt_0_iff empty_iff finite_positive)
  next
    case False
    then have "positive ?in = positive indegree" by (auto simp: positive_def)
    with False show ?thesis by simp
  qed
  with Cons.IH [of ?in "if ?n = 0 then insort (get_index index d, d) ready else ready"] Cons.prems
  show ?case by (auto simp: Let_def split: if_splits)
qed simp

function kahn_loop ::
  "(string, nat) dict \<Rightarrow> (string, string list) dict \<Rightarrow> (string, int) dict \<Rightarrow> heap \<Rightarrow> string list
     \<Rightarrow> (string, int) dict \<times> string list" where
  "kahn_loop index dts indegree [] result = (indegree, result)"
| "kahn_loop index dts indegree ((p, k) # ready) result =
     (let (indegree', ready') = release_dependents index (get_ids dts k) indegree ready
      in kahn_loop index dts indegree' ready' (result @ [k]))"
  by pat_completeness auto

termination
proof (relation "measure (\<lambda>(index, dts, indegree, ready, result).
    length ready + card (positive indegree))", goal_cases)
  case (2 index dts indegree p k ready result x indegree' ready')
  then show ?case
    using release_measure [of index "get_ids dts k" indegree ready indegree' ready'] by simp
qed simp

definition stable_kahn ::
  "string list \<Rightarrow> (string, string list) dict \<Rightarrow> (string, string list) dict \<Rightarrow> (string, nat) dict
     \<Rightarrow> string list \<times> string list" where
  "stable_kahn ids deps dts index =
     (let indegree = map (\<lambda>k. (k, int (length (get_ids deps k)))) ids;
          ready = sort [(get_index index k, k). k \<leftarrow> ids, get_degree indegree k = 0];
          (indegree', result) = kahn_loop index dts indegree ready []
      in (result, filter (\<lambda>k. get_degree indegree' k > 0) ids))"

lemma path_measure:
  assumes "c \<in> set remaining" "c \<notin> set path"
  shows "card (set remaining - insert c (set path)) < card (set remaining - set path)"
  using assms by (intro psubset_card_mono) auto

text \<open>
  \<^verbatim>\<open>_find_cycle\<close>. \<open>visit_children path visited children\<close> is the \<^verbatim>\<open>for\<close> loop of
  \<^verbatim>\<open>visit\<close> with \<^verbatim>\<open>visiting = path\<close>: it returns the cycle, or the ids visited
  when the loop ends.
\<close>

function visit_children ::
  "string list \<Rightarrow> (string, string list) dict \<Rightarrow> string list \<Rightarrow> string set \<Rightarrow> string list
     \<Rightarrow> string list + string set" where
  "visit_children remaining dts path visited [] = Inr visited"
| "visit_children remaining dts path visited (c # cs) =
     (if c \<notin> set remaining then visit_children remaining dts path visited cs
      else if c \<in> set path then Inl (dropWhile (\<lambda>x. x \<noteq> c) path @ [c])
      else if c \<notin> visited then
        (case visit_children remaining dts (path @ [c]) visited (get_ids dts c) of
           Inl cyc \<Rightarrow> Inl cyc
         | Inr visited' \<Rightarrow> visit_children remaining dts path (insert c visited') cs)
      else visit_children remaining dts path visited cs)"
  by pat_completeness auto

termination
  by (relation "measures [\<lambda>(remaining, dts, path, visited, cs). card (set remaining - set path),
        \<lambda>(remaining, dts, path, visited, cs). length cs]")
     (auto simp: path_measure simp del: card_Diff_insert)

fun find_cycle_from ::
  "string list \<Rightarrow> (string, string list) dict \<Rightarrow> string set \<Rightarrow> string list \<Rightarrow> string list option" where
  "find_cycle_from remaining dts visited [] = None"
| "find_cycle_from remaining dts visited (k # ks) =
     (if k \<notin> visited then
        (case visit_children remaining dts [k] visited (get_ids dts k) of
           Inl cyc \<Rightarrow> Some cyc
         | Inr visited' \<Rightarrow> find_cycle_from remaining dts (insert k visited') ks)
      else find_cycle_from remaining dts visited ks)"

definition find_cycle ::
  "string list \<Rightarrow> (string, string list) dict \<Rightarrow> (string, nat) dict \<Rightarrow> string list option" where
  "find_cycle unresolved dts index =
     find_cycle_from unresolved dts {} (sort_key (get_index index) (remdups unresolved))"

text \<open>\<^verbatim>\<open>PlanGraphValidator.validate\<close>\<close>

definition graph_validate :: "plan \<Rightarrow> graph_error + plan_graph" where
  "graph_validate p =
     (case plan_validate p of
        Some e \<Rightarrow> Inl (PlanInvalid e)
      | None \<Rightarrow>
     (let ids = map ps_step_id (plan_steps p); index = index_of ids in
      if length index \<noteq> length ids then
        Inl (DuplicateStepId (case first_duplicate {} ids of None \<Rightarrow> [] | Some k \<Rightarrow> k))
      else case scan_steps index (plan_steps p) [] (map (\<lambda>k. (k, [])) ids) of
        Inl e \<Rightarrow> Inl e
      | Inr (deps, dts) \<Rightarrow>
     (let ordered = map (\<lambda>(k, items). (k, sort_key (get_index index) items)) dts;
          (order, unresolved) = stable_kahn ids deps ordered index
      in if unresolved \<noteq> [] then
           (case find_cycle unresolved ordered index of
              None \<Rightarrow> Inl CycleAssertion
            | Some cyc \<Rightarrow> Inl (DependencyCycle cyc unresolved))
         else Inr \<lparr>pg_plan_id = plan_id p, pg_plan_version = plan_version p, pg_step_ids = ids,
                   topological_order = order,
                   root_step_ids = filter (\<lambda>k. get_ids deps k = []) ids,
                   leaf_step_ids = filter (\<lambda>k. get_ids ordered k = []) ids,
                   dependencies = deps, dependents = ordered\<rparr>)))"

section \<open>Kahn's algorithm meets the greedy specification\<close>

text \<open>What the scan of the plan hands to the two graph algorithms.\<close>

definition adjacency ::
  "string list \<Rightarrow> (string, string list) dict \<Rightarrow> (string, string list) dict \<Rightarrow> (string, nat) dict \<Rightarrow> bool" where
  "adjacency ids deps dts index \<longleftrightarrow> distinct ids \<and>
     (\<forall>k \<in> set ids. distinct (get_ids deps k) \<and> set (get_ids deps k) \<subseteq> set ids) \<and>
     (\<forall>u \<in> set ids. distinct (get_ids dts u) \<and>
        set (get_ids dts u) = {v \<in> set ids. u \<in> set (get_ids deps v)}) \<and>
     (\<forall>i < length ids. get_index index (ids ! i) = i)"

text \<open>
  The steps that may come next once \<open>taken\<close> is done, and the order that always takes the
  available step that is listed first in the plan.
\<close>

definition available :: "string list \<Rightarrow> (string, string list) dict \<Rightarrow> string set \<Rightarrow> string set" where
  "available ids deps taken = {v \<in> set ids. v \<notin> taken \<and> set (get_ids deps v) \<subseteq> taken}"

definition greedy_order ::
  "string list \<Rightarrow> (string, string list) dict \<Rightarrow> (string, nat) dict \<Rightarrow> string list \<Rightarrow> bool" where
  "greedy_order ids deps index ord \<longleftrightarrow>
     (\<forall>i < length ord. ord ! i \<in> available ids deps (set (take i ord)) \<and>
        (\<forall>v \<in> available ids deps (set (take i ord)). get_index index (ord ! i) \<le> get_index index v))"

lemma greedy_Nil [simp]: "greedy_order ids deps index []"
  by (simp add: greedy_order_def)

lemma greedy_snoc:
  "greedy_order ids deps index (ord @ [k]) \<longleftrightarrow> greedy_order ids deps index ord \<and>
     k \<in> available ids deps (set ord) \<and>
     (\<forall>v \<in> available ids deps (set ord). get_index index k \<le> get_index index v)"
  by (auto simp: greedy_order_def less_Suc_eq nth_append)

lemma greedy_facts:
  assumes "greedy_order ids deps index ord"
  shows "distinct ord \<and> set ord \<subseteq> set ids \<and> (\<forall>v \<in> set ord. set (get_ids deps v) \<subseteq> set ord)"
  using assms
proof (induction ord rule: rev_induct)
  case (snoc k ord)
  then show ?case by (auto simp: greedy_snoc available_def)
qed simp

lemma greedy_dep_before:
  assumes "greedy_order ids deps index ord" "i < length ord" "d \<in> set (get_ids deps (ord ! i))"
  shows "\<exists>j < i. ord ! j = d"
proof -
  from assms have "d \<in> set (take i ord)" by (auto simp: greedy_order_def available_def)
  with assms(2) show ?thesis by (auto simp: in_set_conv_nth)
qed

lemma release_spec:
  assumes "release_dependents index ds indegree ready = (indegree', ready')" "distinct ds"
      and "sorted ready" "distinct ready" "\<forall>d \<in> set ds. d \<notin> snd ` set ready"
  shows "(\<forall>v. get_degree indegree' v = get_degree indegree v - (if v \<in> set ds then 1 else 0)) \<and>
         sorted ready' \<and> distinct ready' \<and>
         set ready' = set ready \<union> {(get_index index d, d) | d. d \<in> set ds \<and> get_degree indegree d = 1}"
  using assms
proof (induction ds arbitrary: indegree ready)
  case (Cons d ds)
  let ?n = "get_degree indegree d - 1"
  let ?ready = "if ?n = 0 then insort (get_index index d, d) ready else ready"
  let ?in = "AList.update d ?n indegree"
  from Cons.prems have run: "release_dependents index ds ?in ?ready = (indegree', ready')"
    by (simp add: Let_def)
  have new: "(get_index index d, d) \<notin> set ready" using Cons.prems(5) by force
  have "sorted ?ready" "distinct ?ready" "\<forall>x \<in> set ds. x \<notin> snd ` set ?ready"
    using Cons.prems new by (auto simp: sorted_insort distinct_insort set_insort_key)
  with Cons.IH [OF run] Cons.prems(2) show ?case
    by (auto simp: set_insort_key)
qed simp

definition kahn_inv ::
  "string list \<Rightarrow> (string, string list) dict \<Rightarrow> (string, nat) dict \<Rightarrow> (string, int) dict \<Rightarrow> heap
     \<Rightarrow> string list \<Rightarrow> bool" where
  "kahn_inv ids deps index indegree ready result \<longleftrightarrow>
     greedy_order ids deps index result \<and>
     (\<forall>v \<in> set ids. get_degree indegree v = int (card (set (get_ids deps v) - set result))) \<and>
     sorted ready \<and> distinct ready \<and>
     set ready = (\<lambda>v. (get_index index v, v)) ` available ids deps (set result)"

lemma card_one_member: "k \<in> A \<Longrightarrow> card A = 1 \<longleftrightarrow> A = {k}"
  by (auto simp: card_1_singleton_iff)

lemma available_step:
  assumes "adjacency ids deps dts index" "greedy_order ids deps index result"
      and "k \<in> available ids deps (set result)"
  shows "available ids deps (insert k (set result)) = available ids deps (set result) - {k} \<union>
           {v \<in> set (get_ids dts k). card (set (get_ids deps v) - set result) = 1}"
    (is "_ = ?old \<union> ?new")
proof -
  have k: "k \<in> set ids" "k \<notin> set result" "set (get_ids deps k) \<subseteq> set result"
    using assms(3) by (auto simp: available_def)
  have dts: "set (get_ids dts k) = {v \<in> set ids. k \<in> set (get_ids deps v)}"
    using assms(1) k(1) by (auto simp: adjacency_def)
  have single: "card (set (get_ids deps v) - set result) = 1 \<longleftrightarrow>
      set (get_ids deps v) \<subseteq> insert k (set result)" if "k \<in> set (get_ids deps v)" for v
    using that k(2) card_one_member [of k "set (get_ids deps v) - set result"] by auto
  have "v \<notin> set result \<and> v \<noteq> k" if "k \<in> set (get_ids deps v)" for v
    using that k greedy_facts [OF assms(2)] by auto
  with single k show ?thesis
    by (auto simp: available_def dts)
qed

lemma kahn_inv_step:
  assumes adj: "adjacency ids deps dts index"
      and inv: "kahn_inv ids deps index indegree ((p, k) # ready) result"
      and rel: "release_dependents index (get_ids dts k) indegree ready = (indegree', ready')"
  shows "kahn_inv ids deps index indegree' ready' (result @ [k])"
proof -
  have k: "k \<in> available ids deps (set result)" and p: "p = get_index index k"
    using inv by (auto simp: kahn_inv_def)
  then have kid: "k \<in> set ids" "k \<notin> set result" by (auto simp: available_def)
  have least: "\<forall>v \<in> available ids deps (set result). get_index index k \<le> get_index index v"
    using inv p by (fastforce simp: kahn_inv_def less_eq_prod_def)
  have greedy: "greedy_order ids deps index result" using inv by (simp add: kahn_inv_def)
  have dts: "distinct (get_ids dts k)" "set (get_ids dts k) = {v \<in> set ids. k \<in> set (get_ids deps v)}"
    using adj kid(1) by (auto simp: adjacency_def)
  have ready: "set ready = (\<lambda>v. (get_index index v, v)) ` (available ids deps (set result) - {k})"
  proof -
    have "set ready = set ((p, k) # ready) - {(p, k)}" using inv by (auto simp: kahn_inv_def)
    also have "\<dots> = (\<lambda>v. (get_index index v, v)) ` available ids deps (set result) - {(p, k)}"
      using inv by (simp add: kahn_inv_def)
    finally show ?thesis using p by auto
  qed
  have spec: "(\<forall>v. get_degree indegree' v = get_degree indegree v - (if v \<in> set (get_ids dts k) then 1 else 0)) \<and>
         sorted ready' \<and> distinct ready' \<and>
         set ready' = set ready \<union> {(get_index index d, d) | d. d \<in> set (get_ids dts k) \<and> get_degree indegree d = 1}"
    using inv kid dts(2) by (intro release_spec [OF rel dts(1)]) (auto simp: kahn_inv_def available_def ready)
  have deg: "get_degree indegree v = int (card (set (get_ids deps v) - set result))" if "v \<in> set ids" for v
    using inv that by (simp add: kahn_inv_def)
  have "get_degree indegree' v = int (card (set (get_ids deps v) - set (result @ [k])))" if "v \<in> set ids" for v
  proof (cases "k \<in> set (get_ids deps v)")
    case True
    have eq: "set (get_ids deps v) - set (result @ [k]) = (set (get_ids deps v) - set result) - {k}" by auto
    have "card (set (get_ids deps v) - set result) > 0" using True kid(2) by (auto simp: card_gt_0_iff)
    with True that kid(2) spec deg [OF that] dts(2) show ?thesis
      unfolding eq by (simp add: card_Diff_singleton_if of_nat_diff)
  next
    case False
    then have "set (get_ids deps v) - set (result @ [k]) = set (get_ids deps v) - set result" by auto
    with False spec deg [OF that] dts(2) show ?thesis by simp
  qed
  moreover have "set ready' = (\<lambda>v. (get_index index v, v)) ` available ids deps (set (result @ [k]))"
    using spec ready deg dts(2) available_step [OF adj greedy k] by auto
  ultimately show ?thesis
    using spec greedy k least by (simp add: kahn_inv_def greedy_snoc)
qed

lemma kahn_loop_inv:
  assumes "adjacency ids deps dts index" "kahn_inv ids deps index indegree ready result"
      and "kahn_loop index dts indegree ready result = (indegree', result')"
  shows "kahn_inv ids deps index indegree' [] result'"
  using assms
proof (induction index dts indegree ready result rule: kahn_loop.induct)
  case (2 index dts indegree p k ready result)
  obtain i r where rel: "release_dependents index (get_ids dts k) indegree ready = (i, r)" by fastforce
  with 2 show ?case by (auto intro: kahn_inv_step)
qed simp

lemma get_degree_map:
  "get_degree (map (\<lambda>k. (k, f k)) ids) v = (if v \<in> set ids then f v else 0)"
  by (simp add: get_degree_def map_of_map_restrict restrict_map_def)

lemma kahn_inv_init:
  fixes ids deps index
  assumes "distinct ids" "\<forall>k \<in> set ids. distinct (get_ids deps k)"
  defines "indegree \<equiv> map (\<lambda>k. (k, int (length (get_ids deps k)))) ids"
  shows "kahn_inv ids deps index indegree
           (sort [(get_index index k, k). k \<leftarrow> ids, get_degree indegree k = 0]) []"
proof -
  let ?l = "[(get_index index k, k). k \<leftarrow> ids, get_degree indegree k = 0]"
  have "?l = map (\<lambda>k. (get_index index k, k)) (filter (\<lambda>k. get_degree indegree k = 0) ids)"
    by (induction ids) auto
  then have "distinct ?l"
    using assms(1) by (simp add: distinct_map inj_on_def)
  then show ?thesis
    using assms by (auto simp: kahn_inv_def available_def get_degree_map distinct_card)
qed

text \<open>The outcome of \<^verbatim>\<open>_stable_kahn\<close>: a maximal greedy order and the steps it cannot reach.\<close>

lemma stable_kahn_spec:
  assumes "adjacency ids deps dts index" "stable_kahn ids deps dts index = (order, unresolved)"
  shows "greedy_order ids deps index order \<and> available ids deps (set order) = {} \<and>
         set unresolved = set ids - set order"
proof -
  let ?in = "map (\<lambda>k. (k, int (length (get_ids deps k)))) ids"
  obtain indegree' where loop: "kahn_loop index dts ?in
      (sort [(get_index index k, k). k \<leftarrow> ids, get_degree ?in k = 0]) [] = (indegree', order)"
    and unres: "unresolved = filter (\<lambda>k. get_degree indegree' k > 0) ids"
    using assms(2) by (auto simp: stable_kahn_def Let_def split: prod.splits)
  have "kahn_inv ids deps index ?in (sort [(get_index index k, k). k \<leftarrow> ids, get_degree ?in k = 0]) []"
    using assms(1) by (intro kahn_inv_init) (auto simp: adjacency_def)
  from kahn_loop_inv [OF assms(1) this loop]
  have inv: "greedy_order ids deps index order" "available ids deps (set order) = {}"
      "\<forall>v \<in> set ids. get_degree indegree' v = int (card (set (get_ids deps v) - set order))"
    by (auto simp: kahn_inv_def)
  have "v \<notin> set order \<longleftrightarrow> \<not> set (get_ids deps v) \<subseteq> set order" if "v \<in> set ids" for v
    using that inv(2) greedy_facts [OF inv(1)] by (auto simp: available_def)
  then have "set unresolved = set ids - set order"
    using inv(3) by (auto simp: unres card_gt_0_iff)
  with inv show ?thesis by blast
qed

section \<open>The cycle search\<close>

definition edge :: "(string, string list) dict \<Rightarrow> string \<Rightarrow> string \<Rightarrow> bool" where
  "edge dts u v \<longleftrightarrow> v \<in> set (get_ids dts u)"

definition is_cycle :: "(string, string list) dict \<Rightarrow> string set \<Rightarrow> string list \<Rightarrow> bool" where
  "is_cycle dts R cyc \<longleftrightarrow> 2 \<le> length cyc \<and> hd cyc = last cyc \<and> set cyc \<subseteq> R \<and> successively (edge dts) cyc"

lemma close_path:
  assumes "successively (edge dts) path" "set path \<subseteq> R" "c \<in> set path" "edge dts (last path) c"
  shows "is_cycle dts R (dropWhile (\<lambda>x. x \<noteq> c) path @ [c])"
proof -
  obtain ys zs where path: "path = ys @ c # zs" "c \<notin> set ys"
    using split_list_first [OF assms(3)] by blast
  then have "dropWhile (\<lambda>x. x \<noteq> c) path = c # zs"
    by (auto simp: dropWhile_append3)
  moreover have "successively (edge dts) (c # zs)" "last path = last (c # zs)"
    using assms(1) path(1) by (simp_all add: successively_append_iff)
  moreover from this assms(4) have "successively (edge dts) ((c # zs) @ [c])"
    by (simp only: successively_append_iff) simp
  ultimately show ?thesis
    using assms(2) path(1) by (simp add: is_cycle_def)
qed

lemma visit_cycle:
  assumes "visit_children remaining dts path visited cs = Inl cyc"
      and "path \<noteq> []" "successively (edge dts) path" "set path \<subseteq> set remaining"
      and "\<forall>c \<in> set cs. edge dts (last path) c"
  shows "is_cycle dts (set remaining) cyc"
  using assms
proof (induction remaining dts path visited cs arbitrary: cyc rule: visit_children.induct)
  case (2 remaining dts path visited c cs)
  show ?case
  proof (cases "c \<in> set remaining \<and> c \<notin> set path \<and> c \<notin> visited")
    case True
    have path': "successively (edge dts) (path @ [c])" "\<forall>x \<in> set (get_ids dts c). edge dts (last (path @ [c])) x"
      using 2(7,9) by (simp_all add: successively_append_iff edge_def)
    show ?thesis
    proof (cases "visit_children remaining dts (path @ [c]) visited (get_ids dts c)")
      case (Inl cyc')
      with True 2(2) [OF _ _ _ Inl] 2(5-9) path' show ?thesis by auto
    next
      case (Inr v)
      with True 2(3) [OF _ _ _ Inr] 2(5-9) show ?thesis by auto
    qed
  next
    case False
    then show ?thesis
      using 2 close_path [of dts path "set remaining" c] by (auto split: if_splits)
  qed
qed simp

text \<open>
  Sets of visited steps in which every successor (among the remaining steps) was visited before:
  such a set has a member without predecessor.
\<close>

inductive finished :: "(string, string list) dict \<Rightarrow> string set \<Rightarrow> string set \<Rightarrow> bool"
  for dts R where
  finished_empty: "finished dts R {}"
| finished_insert: "finished dts R W \<Longrightarrow> \<forall>v \<in> R. edge dts c v \<longrightarrow> v \<in> W \<Longrightarrow> finished dts R (insert c W)"

lemma finished_closed: "finished dts R W \<Longrightarrow> u \<in> W \<Longrightarrow> v \<in> R \<Longrightarrow> edge dts u v \<Longrightarrow> v \<in> W"
  by (induction rule: finished.induct) auto

lemma finished_source:
  assumes "finished dts R W" "W \<subseteq> R" "W \<noteq> {}"
  shows "\<exists>c \<in> W. \<forall>u \<in> W. \<not> edge dts u c"
  using assms
proof (induction rule: finished.induct)
  case (finished_insert W c)
  show ?case
  proof (cases "c \<in> W")
    case True
    with finished_insert show ?thesis by (auto simp: insert_absorb)
  next
    case False
    with finished_insert have "\<forall>u \<in> insert c W. \<not> edge dts u c"
      by (auto dest: finished_closed)
    then show ?thesis by blast
  qed
qed simp

lemma visit_finished:
  assumes "visit_children remaining dts path visited cs = Inr visited'"
      and "finished dts (set remaining) visited" "visited \<subseteq> set remaining"
  shows "finished dts (set remaining) visited' \<and> visited \<subseteq> visited' \<and> visited' \<subseteq> set remaining \<and>
         (\<forall>c \<in> set cs. c \<in> set remaining \<longrightarrow> c \<in> visited')"
  using assms
proof (induction remaining dts path visited cs arbitrary: visited' rule: visit_children.induct)
  case (2 remaining dts path visited c cs)
  show ?case
  proof (cases "c \<in> set remaining \<and> c \<notin> set path \<and> c \<notin> visited")
    case True
    show ?thesis
    proof (cases "visit_children remaining dts (path @ [c]) visited (get_ids dts c)")
      case (Inl cyc)
      with True 2(5) show ?thesis by simp
    next
      case (Inr v)
      have v: "finished dts (set remaining) v" "visited \<subseteq> v" "v \<subseteq> set remaining"
          "\<forall>x \<in> set (get_ids dts c). x \<in> set remaining \<longrightarrow> x \<in> v"
        using True 2(2) [OF _ _ _ Inr] 2(6,7) by auto
      then have "finished dts (set remaining) (insert c v)"
        by (intro finished_insert) (auto simp: edge_def)
      with True v Inr 2(3) [OF _ _ _ Inr] 2(5) show ?thesis by auto
    qed
  next
    case False
    then consider "c \<notin> set remaining" | "c \<in> set remaining" "c \<notin> set path" "c \<in> visited"
      using 2(5) by fastforce
    then show ?thesis
    proof cases
      case 1
      with 2(1) [of visited'] 2(5-7) show ?thesis by simp
    next
      case c: 2
      with 2(4) [of visited'] 2(5-7) show ?thesis by auto
    qed
  qed
qed simp

lemma find_cycle_from_sound:
  assumes "find_cycle_from remaining dts visited ks = Some cyc" "set ks \<subseteq> set remaining"
  shows "is_cycle dts (set remaining) cyc"
  using assms
proof (induction remaining dts visited ks rule: find_cycle_from.induct)
  case (2 remaining dts visited k ks)
  then show ?case
    using visit_cycle [of remaining dts "[k]" visited "get_ids dts k" cyc]
    by (auto simp: edge_def split: if_splits sum.splits)
qed simp

lemma find_cycle_from_complete:
  assumes "find_cycle_from remaining dts visited ks = None" "set ks \<subseteq> set remaining"
      and "finished dts (set remaining) visited" "visited \<subseteq> set remaining"
  shows "\<exists>W. finished dts (set remaining) W \<and> set ks \<union> visited \<subseteq> W \<and> W \<subseteq> set remaining"
  using assms
proof (induction remaining dts visited ks rule: find_cycle_from.induct)
  case (2 remaining dts visited k ks)
  show ?case
  proof (cases "k \<in> visited")
    case False
    then obtain v where v: "visit_children remaining dts [k] visited (get_ids dts k) = Inr v"
      using 2(3) by (auto split: sum.splits)
    note facts = visit_finished [OF v 2(5,6)]
    then have "finished dts (set remaining) (insert k v)"
      by (intro finished_insert) (auto simp: edge_def)
    then obtain W where "finished dts (set remaining) W" "set ks \<union> insert k v \<subseteq> W" "W \<subseteq> set remaining"
      using False v facts 2(1) [OF False v] 2(3,4) by auto
    with facts show ?thesis by (intro exI [of _ W]) auto
  qed (use 2 in auto)
qed auto

text \<open>
  If every unresolved step depends on an unresolved step, the search returns a cycle: the
  assertion at the end of \<^verbatim>\<open>_find_cycle\<close> is unreachable.
\<close>

lemma find_cycle_total:
  assumes "unresolved \<noteq> []" "\<forall>v \<in> set unresolved. \<exists>u \<in> set unresolved. edge dts u v"
  shows "\<exists>cyc. find_cycle unresolved dts index = Some cyc \<and> is_cycle dts (set unresolved) cyc"
proof (cases "find_cycle unresolved dts index")
  case None
  then obtain W where W: "finished dts (set unresolved) W" "set unresolved \<subseteq> W" "W \<subseteq> set unresolved"
    using find_cycle_from_complete [of unresolved dts "{}" "sort_key (get_index index) (remdups unresolved)"]
      finished_empty [of dts "set unresolved"] by (auto simp: find_cycle_def)
  then have "W = set unresolved" by blast
  with W finished_source [of dts "set unresolved" W] assms show ?thesis by auto
next
  case (Some cyc)
  then show ?thesis using find_cycle_from_sound [of unresolved dts "{}"] by (auto simp: find_cycle_def)
qed

section \<open>The scan of a plan\<close>

lemma get_ids_update [simp]: "get_ids (AList.update k v d) = (get_ids d)(k := v)"
  by (rule ext) (simp add: get_ids_def)

lemma get_ids_map [simp]:
  "get_ids (map (\<lambda>(k, items). (k, f items)) d) u = (if map_of d u = None then [] else f (get_ids d u))"
  by (simp add: get_ids_def map_of_map split: option.split)

lemma index_fold_keys:
  "fst ` set (fold (\<lambda>(p, k) d. AList.update k p d) (enumerate n ids) d) = fst ` set d \<union> set ids"
  by (induction ids arbitrary: n d) auto

lemma index_fold_wf:
  "wf_dict d \<Longrightarrow> wf_dict (fold (\<lambda>(p, k) d. AList.update k p d) (enumerate n ids) d)"
  by (induction ids arbitrary: n d) auto

lemma index_fold_other:
  "k \<notin> set ids \<Longrightarrow> map_of (fold (\<lambda>(p, k) d. AList.update k p d) (enumerate n ids) d) k = map_of d k"
  by (induction ids arbitrary: n d) auto

lemma index_fold_nth:
  "distinct ids \<Longrightarrow> i < length ids \<Longrightarrow>
   map_of (fold (\<lambda>(p, k) d. AList.update k p d) (enumerate n ids) d) (ids ! i) = Some (n + i)"
  by (induction ids arbitrary: n d i) (auto simp: nth_Cons index_fold_other split: nat.splits)

lemma index_of_known: "map_of (index_of ids) k \<noteq> None \<longleftrightarrow> k \<in> set ids"
  using index_fold_keys [of 0 ids "[]"] by (simp add: index_of_def key_iff [symmetric] del: not_None_eq)

lemma index_of_length: "length (index_of ids) = card (set ids)"
proof -
  have "wf_dict (index_of ids)" by (simp add: index_of_def index_fold_wf)
  then have "length (index_of ids) = card (fst ` set (index_of ids))"
    by (metis distinct_card length_map set_map)
  then show ?thesis using index_fold_keys [of 0 ids "[]"] by (simp add: index_of_def)
qed

lemma index_of_nth: "distinct ids \<Longrightarrow> i < length ids \<Longrightarrow> get_index (index_of ids) (ids ! i) = i"
  using index_fold_nth [of ids i 0 "[]"] by (simp add: get_index_def index_of_def)

text \<open>The local conditions the scan enforces on one step.\<close>

definition depends_ok :: "string set \<Rightarrow> plan_step \<Rightarrow> bool" where
  "depends_ok V st \<longleftrightarrow> distinct (ps_depends_on st) \<and> set (ps_depends_on st) \<subseteq> V \<and>
     ps_step_id st \<notin> set (ps_depends_on st)"

lemma scan_depends_on_spec:
  "scan_depends_on index sid seen ds dts = Inr dts' \<Longrightarrow>
   distinct ds \<and> set ds \<inter> seen = {} \<and> sid \<notin> set ds \<and> (\<forall>d \<in> set ds. map_of index d \<noteq> None) \<and>
   (\<forall>u. get_ids dts' u = get_ids dts u @ (if u \<in> set ds then [sid] else [])) \<and>
   fst ` set dts' = fst ` set dts \<union> set ds"
proof (induction ds arbitrary: seen dts)
  case (Cons d ds)
  then have ok: "map_of index d \<noteq> None" "d \<noteq> sid" "d \<notin> seen"
      and rest: "scan_depends_on index sid (insert d seen) ds
        (AList.update d (get_ids dts d @ [sid]) dts) = Inr dts'"
    by (auto split: if_splits)
  from Cons.IH [OF rest] ok show ?case by auto
qed simp

lemma scan_depends_on_total:
  "distinct ds \<Longrightarrow> set ds \<inter> seen = {} \<Longrightarrow> sid \<notin> set ds \<Longrightarrow> \<forall>d \<in> set ds. map_of index d \<noteq> None \<Longrightarrow>
   \<exists>dts'. scan_depends_on index sid seen ds dts = Inr dts'"
  by (induction ds arbitrary: seen dts) auto

lemma scan_steps_spec:
  assumes "scan_steps index sts deps dts = Inr (deps', dts')" "distinct (map ps_step_id sts)"
  shows "(\<forall>st \<in> set sts. depends_ok {k. map_of index k \<noteq> None} st \<and>
            get_ids deps' (ps_step_id st) = ps_depends_on st) \<and>
         (\<forall>k. k \<notin> ps_step_id ` set sts \<longrightarrow> map_of deps' k = map_of deps k) \<and>
         fst ` set deps' = fst ` set deps \<union> ps_step_id ` set sts \<and>
         (\<forall>u. get_ids dts' u = get_ids dts u @ map ps_step_id (filter (\<lambda>st. u \<in> set (ps_depends_on st)) sts)) \<and>
         fst ` set dts' = fst ` set dts \<union> (\<Union>st \<in> set sts. set (ps_depends_on st))"
  using assms
proof (induction sts arbitrary: deps dts)
  case (Cons st sts)
  obtain d1 where d1: "scan_depends_on index (ps_step_id st) {} (ps_depends_on st) dts = Inr d1"
    using Cons.prems(1) by (auto split: sum.splits)
  note one = scan_depends_on_spec [OF d1]
  let ?deps = "AList.update (ps_step_id st) (ps_depends_on st) deps"
  have rest: "scan_steps index sts ?deps d1 = Inr (deps', dts')" using Cons.prems(1) d1 by simp
  note IH = Cons.IH [OF rest]
  have new: "ps_step_id st \<notin> ps_step_id ` set sts" "distinct (map ps_step_id sts)"
    using Cons.prems(2) by auto
  from IH new have "get_ids deps' (ps_step_id st) = ps_depends_on st"
    by (simp add: get_ids_def)
  with one IH new show ?case
    by (auto simp: depends_ok_def)
qed simp

lemma scan_steps_total:
  "\<forall>st \<in> set sts. depends_ok {k. map_of index k \<noteq> None} st \<Longrightarrow>
   \<exists>deps' dts'. scan_steps index sts deps dts = Inr (deps', dts')"
proof (induction sts arbitrary: deps dts)
  case (Cons st sts)
  obtain d1 where "scan_depends_on index (ps_step_id st) {} (ps_depends_on st) dts = Inr d1"
    using Cons.prems scan_depends_on_total [of "ps_depends_on st" "{}" "ps_step_id st" index dts]
    by (auto simp: depends_ok_def)
  with Cons show ?case by simp
qed simp

section \<open>The validator\<close>

definition dep_rel :: "plan \<Rightarrow> (string \<times> string) set" where
  "dep_rel p = {(d, s). \<exists>st \<in> set (plan_steps p). s = ps_step_id st \<and> d \<in> set (ps_depends_on st)}"

abbreviation plan_ids :: "plan \<Rightarrow> string list" where
  "plan_ids p \<equiv> map ps_step_id (plan_steps p)"

definition structure_ok :: "plan \<Rightarrow> bool" where
  "structure_ok p \<longleftrightarrow> plan_validate p = None \<and> distinct (plan_ids p) \<and>
     (\<forall>st \<in> set (plan_steps p). depends_ok (set (plan_ids p)) st)"

definition scan_plan :: "plan \<Rightarrow> graph_error + (string, string list) dict \<times> (string, string list) dict" where
  "scan_plan p = scan_steps (index_of (plan_ids p)) (plan_steps p) [] (map (\<lambda>k. (k, [])) (plan_ids p))"

definition order_dependents :: "plan \<Rightarrow> (string, string list) dict \<Rightarrow> (string, string list) dict" where
  "order_dependents p dts =
     map (\<lambda>(k, items). (k, sort_key (get_index (index_of (plan_ids p))) items)) dts"

lemma index_known_ids: "{k. map_of (index_of ids) k \<noteq> None} = set ids"
  using index_of_known by blast

lemma get_ids_empty: "get_ids (map (\<lambda>k. (k, [])) ks) u = []"
  by (simp add: get_ids_def map_of_map_restrict restrict_map_def)

lemma get_order_dependents:
  "get_ids (order_dependents p dts) u = sort_key (get_index (index_of (plan_ids p))) (get_ids dts u)"
  by (simp add: order_dependents_def) (simp add: get_ids_def)

lemma scan_plan_facts:
  assumes "distinct (plan_ids p)" "scan_plan p = Inr (deps, dts)"
  shows "adjacency (plan_ids p) deps (order_dependents p dts) (index_of (plan_ids p))"
    and "\<forall>st \<in> set (plan_steps p). depends_ok (set (plan_ids p)) st \<and>
           get_ids deps (ps_step_id st) = ps_depends_on st"
    and "fst ` set deps = set (plan_ids p)"
    and "\<And>u v. edge (order_dependents p dts) u v \<longleftrightarrow> (u, v) \<in> dep_rel p"
proof -
  note spec = scan_steps_spec [OF assms(2) [unfolded scan_plan_def] assms(1), unfolded index_known_ids]
  note init = get_ids_empty [of "plan_ids p"]
  have dts: "get_ids dts u = map ps_step_id (filter (\<lambda>st. u \<in> set (ps_depends_on st)) (plan_steps p))" for u
    using spec init by simp
  show ok: "\<forall>st \<in> set (plan_steps p). depends_ok (set (plan_ids p)) st \<and>
      get_ids deps (ps_step_id st) = ps_depends_on st" using spec by blast
  show "fst ` set deps = set (plan_ids p)" using spec by simp
  have ordered: "distinct (get_ids (order_dependents p dts) u)"
      "set (get_ids (order_dependents p dts) u) = set (get_ids dts u)" for u
    using assms(1) by (simp_all add: get_order_dependents dts distinct_map_filter)
  show edges: "edge (order_dependents p dts) u v \<longleftrightarrow> (u, v) \<in> dep_rel p" for u v
    by (auto simp: edge_def ordered dts dep_rel_def)
  show "adjacency (plan_ids p) deps (order_dependents p dts) (index_of (plan_ids p))"
    using assms(1) ok ordered
    by (auto simp: adjacency_def depends_ok_def index_of_nth dts simp del: length_map)
qed

lemma graph_validate_unfold:
  "graph_validate p =
     (case plan_validate p of
        Some e \<Rightarrow> Inl (PlanInvalid e)
      | None \<Rightarrow>
          if \<not> distinct (plan_ids p)
          then Inl (DuplicateStepId (case first_duplicate {} (plan_ids p) of None \<Rightarrow> [] | Some k \<Rightarrow> k))
          else case scan_plan p of
            Inl e \<Rightarrow> Inl e
          | Inr (deps, dts) \<Rightarrow>
              let (order, unresolved) =
                    stable_kahn (plan_ids p) deps (order_dependents p dts) (index_of (plan_ids p))
              in if unresolved \<noteq> [] then
                   (case find_cycle unresolved (order_dependents p dts) (index_of (plan_ids p)) of
                      None \<Rightarrow> Inl CycleAssertion
                    | Some cyc \<Rightarrow> Inl (DependencyCycle cyc unresolved))
                 else Inr \<lparr>pg_plan_id = plan_id p, pg_plan_version = plan_version p,
                           pg_step_ids = plan_ids p, topological_order = order,
                           root_step_ids = filter (\<lambda>k. get_ids deps k = []) (plan_ids p),
                           leaf_step_ids =
                             filter (\<lambda>k. get_ids (order_dependents p dts) k = []) (plan_ids p),
                           dependencies = deps, dependents = order_dependents p dts\<rparr>)"
proof -
  have dup: "length (index_of (plan_ids p)) \<noteq> length (plan_ids p) \<longleftrightarrow> \<not> distinct (plan_ids p)"
    by (metis index_of_length card_distinct distinct_card)
  show ?thesis
    unfolding graph_validate_def Let_def scan_plan_def order_dependents_def dup by (rule refl)
qed

lemma trancl_successively:
  "successively (edge dts) xs \<Longrightarrow> 2 \<le> length xs \<Longrightarrow> (hd xs, last xs) \<in> {(u, v). edge dts u v}\<^sup>+"
proof (induction xs)
  case (Cons x xs)
  then obtain y ys where xs: "xs = y # ys" by (cases xs) auto
  with Cons.prems have "edge dts x y" by simp
  moreover have "(y, last xs) \<in> {(u, v). edge dts u v}\<^sup>+" if "ys \<noteq> []"
    using Cons xs that by (cases ys) auto
  ultimately show ?case
    using xs by (cases "ys = []") (auto intro: trancl_into_trancl2)
qed simp

lemma cycle_not_acyclic: "is_cycle dts R cyc \<Longrightarrow> \<not> acyclic {(u, v). edge dts u v}"
  using trancl_successively [of dts cyc] by (auto simp: is_cycle_def acyclic_def)

lemma order_acyclic:
  assumes "distinct order" "\<And>d s. (d, s) \<in> r \<Longrightarrow> \<exists>i j. i < j \<and> j < length order \<and> order ! i = d \<and> order ! j = s"
  shows "acyclic r"
proof -
  have "\<exists>i j. i < j \<and> j < length order \<and> order ! i = a \<and> order ! j = b" if "(a, b) \<in> r\<^sup>+" for a b
    using that
  proof (induction rule: trancl_induct)
    case (step b c)
    then obtain i j j' k where "i < j" "j < length order" "order ! i = a" "order ! j = b"
        "j' < k" "k < length order" "order ! j' = b" "order ! k = c"
      using assms(2) by blast
    moreover from this have "j = j'" using assms(1) nth_eq_iff_index_eq [of order j j'] by auto
    ultimately show ?case by (intro exI [of _ i] exI [of _ k]) auto
  qed (use assms(2) in blast)
  then show ?thesis
    using assms(1) by (fastforce simp: acyclic_def nth_eq_iff_index_eq)
qed

text \<open>The graph algorithms on a scanned plan: an order of all steps, or a genuine cycle.\<close>

lemma kahn_on_plan:
  assumes "distinct (plan_ids p)" "scan_plan p = Inr (deps, dts)"
      and "stable_kahn (plan_ids p) deps (order_dependents p dts) (index_of (plan_ids p)) = (order, unresolved)"
  shows "unresolved = [] \<Longrightarrow> greedy_order (plan_ids p) deps (index_of (plan_ids p)) order \<and>
           set order = set (plan_ids p) \<and> acyclic (dep_rel p)"
    and "unresolved \<noteq> [] \<Longrightarrow> \<not> acyclic (dep_rel p) \<and>
           (\<exists>cyc. find_cycle unresolved (order_dependents p dts) (index_of (plan_ids p)) = Some cyc \<and>
             is_cycle (order_dependents p dts) (set unresolved) cyc)"
proof -
  note facts = scan_plan_facts [OF assms(1,2)]
  note kahn = stable_kahn_spec [OF facts(1) assms(3)]
  have deps: "get_ids deps s = ps_depends_on st" if "st \<in> set (plan_steps p)" "s = ps_step_id st" for s st
    using facts(2) that by blast
  have rel: "dep_rel p = {(u, v). edge (order_dependents p dts) u v}" using facts(4) by auto
  {
    assume "unresolved = []"
    with kahn have all: "set order = set (plan_ids p)" using greedy_facts [of "plan_ids p" deps] by auto
    have "\<exists>i j. i < j \<and> j < length order \<and> order ! i = d \<and> order ! j = s" if "(d, s) \<in> dep_rel p" for d s
    proof -
      have "s \<in> set order" "d \<in> set (get_ids deps s)"
        using that all deps by (auto simp: dep_rel_def)
      then obtain j where j: "j < length order" "order ! j = s" by (auto simp: in_set_conv_nth)
      with greedy_dep_before [of "plan_ids p" deps _ order j d] kahn \<open>d \<in> _\<close> show ?thesis by blast
    qed
    then have "acyclic (dep_rel p)" using kahn greedy_facts order_acyclic by blast
    with kahn all show "greedy_order (plan_ids p) deps (index_of (plan_ids p)) order \<and>
      set order = set (plan_ids p) \<and> acyclic (dep_rel p)" by blast
  }
  assume ne: "unresolved \<noteq> []"
  have "\<exists>u \<in> set unresolved. edge (order_dependents p dts) u v" if "v \<in> set unresolved" for v
  proof -
    have v: "v \<in> set (plan_ids p)" "v \<notin> set order" using that kahn by auto
    then obtain u where u: "u \<in> set (get_ids deps v)" "u \<notin> set order"
      using kahn by (auto simp: available_def)
    from facts(1) v(1) u(1) have "u \<in> set (plan_ids p)" by (auto simp: adjacency_def)
    moreover have "edge (order_dependents p dts) u v"
      using facts(1) u(1) v(1) calculation by (auto simp: adjacency_def edge_def)
    ultimately show ?thesis using u(2) kahn by auto
  qed
  then have "\<exists>cyc. find_cycle unresolved (order_dependents p dts) (index_of (plan_ids p)) = Some cyc \<and>
      is_cycle (order_dependents p dts) (set unresolved) cyc"
    using ne by (intro find_cycle_total) auto
  then show "\<not> acyclic (dep_rel p) \<and>
      (\<exists>cyc. find_cycle unresolved (order_dependents p dts) (index_of (plan_ids p)) = Some cyc \<and>
        is_cycle (order_dependents p dts) (set unresolved) cyc)"
    using cycle_not_acyclic rel by auto
qed

lemma graph_validate_Inr:
  assumes "graph_validate p = Inr g"
  shows "structure_ok p \<and> acyclic (dep_rel p) \<and> pg_plan_id g = plan_id p \<and>
    pg_plan_version g = plan_version p \<and> pg_step_ids g = plan_ids p \<and>
    greedy_order (plan_ids p) (dependencies g) (index_of (plan_ids p)) (topological_order g) \<and>
    set (topological_order g) = set (plan_ids p) \<and> fst ` set (dependencies g) = set (plan_ids p) \<and>
    (\<forall>st \<in> set (plan_steps p). dependencies_of g (ps_step_id st) = ps_depends_on st) \<and>
    (\<forall>u v. v \<in> set (dependents_of g u) \<longleftrightarrow> (u, v) \<in> dep_rel p)"
proof -
  from assms have valid: "plan_validate p = None" "distinct (plan_ids p)"
    by (auto simp: graph_validate_unfold split: option.splits if_splits)
  obtain deps dts where scan: "scan_plan p = Inr (deps, dts)"
    using assms valid by (cases "scan_plan p") (auto simp: graph_validate_unfold)
  obtain order unresolved where kahn: "stable_kahn (plan_ids p) deps (order_dependents p dts)
      (index_of (plan_ids p)) = (order, unresolved)" by fastforce
  note facts = scan_plan_facts [OF valid(2) scan] and outcome = kahn_on_plan [OF valid(2) scan kahn]
  from assms valid scan kahn have none: "unresolved = []"
    by (auto simp: graph_validate_unfold split: if_splits option.splits)
  with assms valid scan kahn have g: "g = \<lparr>pg_plan_id = plan_id p, pg_plan_version = plan_version p,
                           pg_step_ids = plan_ids p, topological_order = order,
                           root_step_ids = filter (\<lambda>k. get_ids deps k = []) (plan_ids p),
                           leaf_step_ids =
                             filter (\<lambda>k. get_ids (order_dependents p dts) k = []) (plan_ids p),
                           dependencies = deps, dependents = order_dependents p dts\<rparr>"
    by (simp add: graph_validate_unfold)
  show ?thesis
    unfolding structure_ok_def g dependencies_of_def dependents_of_def
    using valid facts outcome(1) [OF none] by (simp add: edge_def)
qed

lemma graph_validate_accepts:
  assumes "structure_ok p" "acyclic (dep_rel p)"
  shows "\<exists>g. graph_validate p = Inr g"
proof -
  from assms(1) have valid: "plan_validate p = None" "distinct (plan_ids p)"
    by (auto simp: structure_ok_def)
  obtain deps dts where scan: "scan_plan p = Inr (deps, dts)"
    using assms(1) scan_steps_total [of "plan_steps p" "index_of (plan_ids p)"]
    unfolding index_known_ids structure_ok_def scan_plan_def by blast
  obtain order unresolved where kahn: "stable_kahn (plan_ids p) deps (order_dependents p dts)
      (index_of (plan_ids p)) = (order, unresolved)" by fastforce
  with kahn_on_plan(2) [OF valid(2) scan kahn] assms(2) have "unresolved = []" by blast
  with valid scan kahn show ?thesis by (simp add: graph_validate_unfold)
qed

lemma graph_validate_cycle:
  assumes "graph_validate p = Inl e" "structure_ok p"
  shows "\<exists>cyc unres. e = DependencyCycle cyc unres \<and> 2 \<le> length cyc \<and> hd cyc = last cyc \<and>
           set cyc \<subseteq> set unres \<and> set unres \<subseteq> set (plan_ids p) \<and>
           successively (\<lambda>u v. (u, v) \<in> dep_rel p) cyc"
proof -
  from assms(2) have valid: "plan_validate p = None" "distinct (plan_ids p)"
    by (auto simp: structure_ok_def)
  obtain deps dts where scan: "scan_plan p = Inr (deps, dts)"
    using assms(2) scan_steps_total [of "plan_steps p" "index_of (plan_ids p)"]
    unfolding index_known_ids structure_ok_def scan_plan_def by blast
  obtain order unresolved where kahn: "stable_kahn (plan_ids p) deps (order_dependents p dts)
      (index_of (plan_ids p)) = (order, unresolved)" by fastforce
  note facts = scan_plan_facts [OF valid(2) scan]
  from assms(1) valid scan kahn have ne: "unresolved \<noteq> []"
    by (auto simp: graph_validate_unfold split: if_splits)
  then obtain cyc where cyc: "find_cycle unresolved (order_dependents p dts) (index_of (plan_ids p)) = Some cyc"
      "is_cycle (order_dependents p dts) (set unresolved) cyc"
    using kahn_on_plan(2) [OF valid(2) scan kahn] by blast
  have "edge (order_dependents p dts) = (\<lambda>u v. (u, v) \<in> dep_rel p)" using facts(4) by (intro ext) simp
  with cyc stable_kahn_spec [OF facts(1) kahn] assms(1) valid scan kahn ne show ?thesis
    by (auto simp: graph_validate_unfold is_cycle_def)
qed

section \<open>The contract of the DAG view\<close>

locale dag_view =
  fixes build :: "'p \<Rightarrow> 'e + 'g"
    and ids :: "'p \<Rightarrow> string list"
    and order :: "'g \<Rightarrow> string list"
    and deps :: "'g \<Rightarrow> string \<Rightarrow> string list"
  assumes order_all: "build p = Inr g \<Longrightarrow> distinct (order g) \<and> set (order g) = set (ids p)"
      and deps_before: "build p = Inr g \<Longrightarrow> i < length (order g) \<Longrightarrow> d \<in> set (deps g (order g ! i)) \<Longrightarrow>
        \<exists>j < i. order g ! j = d"
begin

text \<open>Induction along the dependencies.\<close>

lemma dependency_induct:
  assumes "build p = Inr g"
      and step: "\<And>k. k \<in> set (ids p) \<Longrightarrow> \<forall>d \<in> set (deps g k). P d \<Longrightarrow> P k"
      and "k \<in> set (ids p)"
  shows "P k"
proof -
  have "i < length (order g) \<Longrightarrow> P (order g ! i)" for i
  proof (induction i rule: less_induct)
    case (less i)
    show ?case
      using less order_all [OF assms(1)] deps_before [OF assms(1) less.prems]
      by (intro step) (auto dest: nth_mem intro: less.IH)
  qed
  with assms(3) order_all [OF assms(1)] show ?thesis by (metis in_set_conv_nth)
qed

end

interpretation plan_dag: dag_view graph_validate plan_ids topological_order dependencies_of
proof unfold_locales
  fix p g
  assume g: "graph_validate p = Inr g"
  note facts = graph_validate_Inr [OF g]
  show "distinct (topological_order g) \<and> set (topological_order g) = set (plan_ids p)"
    using facts greedy_facts by blast
  show "\<exists>j < i. topological_order g ! j = d"
    if "i < length (topological_order g)" "d \<in> set (dependencies_of g (topological_order g ! i))" for i d
    using greedy_dep_before [of "plan_ids p" "dependencies g" "index_of (plan_ids p)" "topological_order g" i d]
      that facts by (simp add: dependencies_of_def)
qed

section \<open>Properties\<close>

text \<open>
  C7. Exact acceptance: the graph validator accepts a plan precisely when its fields validate, its
  step ids are distinct, every step depends on distinct other steps of the plan, and the
  dependency relation is acyclic.
\<close>

theorem graph_validate_exact:
  "(\<exists>g. graph_validate p = Inr g) \<longleftrightarrow> structure_ok p \<and> acyclic (dep_rel p)"
  using graph_validate_Inr graph_validate_accepts by blast

text \<open>
  C8. The topological order of an accepted plan contains every step once, places each dependency
  before the steps that need it, and at every position takes the step listed first in the plan
  among those whose dependencies are done; so the order is the same on every run.
\<close>

theorem topological_order_greedy:
  assumes "graph_validate p = Inr g"
  shows "distinct (topological_order g) \<and> set (topological_order g) = set (plan_ids p) \<and>
    (\<forall>i < length (topological_order g). \<forall>d \<in> set (dependencies_of g (topological_order g ! i)).
       \<exists>j < i. topological_order g ! j = d) \<and>
    greedy_order (plan_ids p) (dependencies g) (index_of (plan_ids p)) (topological_order g)"
  using plan_dag.order_all [OF assms] plan_dag.deps_before [OF assms] graph_validate_Inr [OF assms]
  by blast

text \<open>
  C19. Honest cycle reports: when a structurally sound plan is refused, the error is a dependency
  cycle whose path is a real cycle of the plan among the reported unresolved steps; the assertion
  that closes the cycle search is never reached.
\<close>

theorem graph_validate_cycle_real:
  assumes "structure_ok p" "graph_validate p = Inl e"
  shows "\<exists>cyc unres. e = DependencyCycle cyc unres \<and> 2 \<le> length cyc \<and> hd cyc = last cyc \<and>
           set cyc \<subseteq> set unres \<and> set unres \<subseteq> set (plan_ids p) \<and>
           successively (\<lambda>u v. (u, v) \<in> dep_rel p) cyc"
  using graph_validate_cycle [OF assms(2,1)] .

definition sample_step :: "string \<Rightarrow> string list \<Rightarrow> plan_step" where
  "sample_step k ds = \<lparr>ps_step_id = k, ps_title = k, ps_description = [], ps_depends_on = ds,
     ps_completion_criteria = ''c'', ps_preferred_agent = ''a'',
     ps_capability_requirements =
       \<lparr>requires_planning = False, requires_tools = False, requires_rag = False,
        requires_multi_agent = False, requires_code_reasoning = False,
        requires_structured_output = False, requires_long_reasoning = False,
        req_risk_level = LOW, estimated_steps = 1\<rparr>,
     ps_execution_kind = AGENT, ps_output_policy = INTERNAL\<rparr>"

definition sample_plan :: "plan_step list \<Rightarrow> plan" where
  "sample_plan sts = \<lparr>plan_id = ''p'', plan_version = 1, task_summary = [], plan_steps = sts,
     plan_created_at = DT (Some 0) 0, plan_source_of = DETERMINISTIC\<rparr>"

definition diamond :: plan where
  "diamond = sample_plan [sample_step ''d'' [''b'', ''c''], sample_step ''c'' [''a''],
     sample_step ''b'' [''a''], sample_step ''a'' []]"

definition two_cycle :: plan where
  "two_cycle = sample_plan [sample_step ''a'' [''b''], sample_step ''b'' [''a'']]"

lemmas graph_eval = diamond_def two_cycle_def sample_plan_def sample_step_def graph_validate_def
  plan_validate_def plan_step_check_def aware_ne_def astimezone_utc_def blank_def is_space_def
  index_of_def stable_kahn_def get_ids_def get_index_def get_degree_def find_cycle_def Let_def

lemma diamond_accepted: "\<exists>g. graph_validate diamond = Inr g \<and> topological_order g = [''a'', ''c'', ''b'', ''d'']"
  by (simp add: graph_eval)

lemma two_cycle_refused: "graph_validate two_cycle = Inl (DependencyCycle [''a'', ''b'', ''a''] [''a'', ''b''])"
  by (simp add: graph_eval)

theorem topological_order_greedy_witness:
  "\<exists>g. graph_validate diamond = Inr g \<and> topological_order g = [''a'', ''c'', ''b'', ''d''] \<and>
     distinct (topological_order g)"
  using diamond_accepted topological_order_greedy [of diamond] by blast

theorem graph_validate_cycle_real_witness:
  "structure_ok two_cycle \<and>
   (\<exists>cyc unres. graph_validate two_cycle = Inl (DependencyCycle cyc unres) \<and> hd cyc = last cyc)"
proof -
  have "structure_ok two_cycle"
    by (simp add: structure_ok_def graph_eval depends_ok_def)
  with graph_validate_cycle_real [OF this two_cycle_refused] two_cycle_refused show ?thesis by auto
qed

end
