(* ===== verification/Claim_Gate.thy ===== *)
theory Claim_Gate
  imports Cancellation
begin

text \<open>
  \<^verbatim>\<open>core/runtime/claim_gate.py\<close>: the gate around the scheduler's claim section. Every body
  under the gate's lock is one step. \<^verbatim>\<open>pause\<close> is a coroutine that polls: \<open>pause_begin\<close> is
  its first locked section and \<open>pause_poll\<close> one turn of its loop, between which other calls
  may run. \<open>pending\<close> holds the deadline of a \<^verbatim>\<open>pause\<close> that has begun and not ended.
\<close>

datatype gate_state = OPEN | PAUSING | PAUSED | RESUMING | CLOSED

datatype gate_error =
    CLAIM_GATE_CLOSED | CLAIM_GATE_PAUSE_IN_PROGRESS | ExitWithoutEntry
  | NegativeTimeout | PauseTimedOut | PauseCancelled cancel_error

record claim_gate =
  gate_state :: gate_state
  claim_in_progress :: int
  pause_owner :: bool

definition new_gate :: claim_gate where
  "new_gate = \<lparr>gate_state = OPEN, claim_in_progress = 0, pause_owner = False\<rparr>"

definition enter_claim :: "claim_gate \<Rightarrow> (gate_error + bool) \<times> claim_gate" where
  "enter_claim g =
     (if gate_state g = CLOSED then (Inl CLAIM_GATE_CLOSED, g)
      else if gate_state g \<noteq> OPEN then (Inr False, g)
      else (Inr True, g\<lparr>claim_in_progress := claim_in_progress g + 1\<rparr>))"

definition exit_claim :: "claim_gate \<Rightarrow> gate_error option \<times> claim_gate" where
  "exit_claim g =
     (if claim_in_progress g \<le> 0 then (Some ExitWithoutEntry, g)
      else (None, g\<lparr>claim_in_progress := claim_in_progress g - 1\<rparr>))"

definition pause_begin ::
  "claim_gate \<Rightarrow> real option \<Rightarrow> real \<Rightarrow> (gate_error + real option) \<times> claim_gate" where
  "pause_begin g timeout clk =
     (if some_and timeout (\<lambda>t. t < 0) then (Inl NegativeTimeout, g)
      else if gate_state g = CLOSED then (Inl CLAIM_GATE_CLOSED, g)
      else if pause_owner g \<or> gate_state g \<noteq> OPEN then (Inl CLAIM_GATE_PAUSE_IN_PROGRESS, g)
      else (Inr (map_option (\<lambda>t. clk + t) timeout), g\<lparr>pause_owner := True, gate_state := PAUSING\<rparr>))"

text \<open>The \<^verbatim>\<open>except BaseException\<close> block of \<^verbatim>\<open>pause\<close>.\<close>

definition pause_abort :: "claim_gate \<Rightarrow> claim_gate" where
  "pause_abort g =
     g\<lparr>gate_state := (if gate_state g \<noteq> CLOSED then OPEN else CLOSED), pause_owner := False\<rparr>"

datatype poll_outcome = StillWaiting | PauseReached | PauseRaised gate_error

definition pause_poll ::
  "claim_gate \<Rightarrow> cancellation_source option \<Rightarrow> real option \<Rightarrow> real \<Rightarrow> poll_outcome \<times> claim_gate" where
  "pause_poll g token deadline clk =
     (case (case token of None \<Rightarrow> None | Some t \<Rightarrow> raise_if_cancelled t) of
        Some e \<Rightarrow> (PauseRaised (PauseCancelled e), pause_abort g)
      | None \<Rightarrow>
          (if claim_in_progress g = 0 then (PauseReached, g\<lparr>gate_state := PAUSED\<rparr>)
           else if some_and deadline (\<lambda>d. d \<le> clk) then (PauseRaised PauseTimedOut, pause_abort g)
           else (StillWaiting, g)))"

definition resume :: "claim_gate \<Rightarrow> claim_gate" where
  "resume g =
     (if gate_state g = CLOSED then g\<lparr>pause_owner := False\<rparr>
      else if gate_state g \<notin> {PAUSED, PAUSING} then g\<lparr>pause_owner := False\<rparr>
      else g\<lparr>gate_state := OPEN, pause_owner := False\<rparr>)"

definition close_gate :: "claim_gate \<Rightarrow> claim_gate" where
  "close_gate g = g\<lparr>gate_state := CLOSED, pause_owner := False\<rparr>"

definition gate_snapshot :: "claim_gate \<Rightarrow> py_datetime \<Rightarrow> gate_state \<times> int \<times> py_datetime" where
  "gate_snapshot g now = (gate_state g, claim_in_progress g, now)"

section \<open>Interleavings\<close>

text \<open>
  The gate with the pausing coroutines that have begun. Any order of calls is allowed, also a
  \<^verbatim>\<open>close\<close> or a \<^verbatim>\<open>resume\<close> while a \<^verbatim>\<open>pause\<close> is polling.
\<close>

record gate_system =
  the_gate :: claim_gate
  pausers :: "real option list"
  inside :: nat

datatype gate_call =
    Enter | Exit | PauseBegin "real option" real | PausePoll nat "cancellation_source option" real
  | Resume | Close

fun gate_post :: "gate_system \<Rightarrow> gate_call \<Rightarrow> gate_system" where
  "gate_post s Enter =
     (case enter_claim (the_gate s) of
        (Inr True, g) \<Rightarrow> s\<lparr>the_gate := g, inside := inside s + 1\<rparr>
      | (_, g) \<Rightarrow> s\<lparr>the_gate := g\<rparr>)"
| "gate_post s Exit =
     (if inside s = 0 then s
      else s\<lparr>the_gate := snd (exit_claim (the_gate s)), inside := inside s - 1\<rparr>)"
| "gate_post s (PauseBegin timeout clk) =
     (case pause_begin (the_gate s) timeout clk of
        (Inl e, g) \<Rightarrow> s\<lparr>the_gate := g\<rparr>
      | (Inr d, g) \<Rightarrow> s\<lparr>the_gate := g, pausers := pausers s @ [d]\<rparr>)"
| "gate_post s (PausePoll i token clk) =
     (if i < length (pausers s) then
        (case pause_poll (the_gate s) token (pausers s ! i) clk of
           (StillWaiting, g) \<Rightarrow> s\<lparr>the_gate := g\<rparr>
         | (_, g) \<Rightarrow> s\<lparr>the_gate := g, pausers := take i (pausers s) @ drop (Suc i) (pausers s)\<rparr>)
      else s)"
| "gate_post s Resume = s\<lparr>the_gate := resume (the_gate s)\<rparr>"
| "gate_post s Close = s\<lparr>the_gate := close_gate (the_gate s)\<rparr>"

definition gate_inv :: "gate_system \<Rightarrow> bool" where
  "gate_inv s \<longleftrightarrow> claim_in_progress (the_gate s) = int (inside s) \<and>
     (gate_state (the_gate s) = PAUSED \<longrightarrow> inside s = 0) \<and> gate_state (the_gate s) \<noteq> RESUMING"

lemmas gate_defs = enter_claim_def exit_claim_def pause_begin_def pause_poll_def pause_abort_def
  resume_def close_gate_def

lemma gate_post_inv: "gate_inv s \<Longrightarrow> gate_inv (gate_post s c)"
  by (cases c)
     (auto simp: gate_inv_def gate_defs split: option.splits if_splits)

interpretation gate_machine: invariant_machine gate_post gate_inv
  by unfold_locales (rule gate_post_inv)

definition new_system :: gate_system where
  "new_system = \<lparr>the_gate = new_gate, pausers = [], inside = 0\<rparr>"

lemma new_system_inv: "gate_inv new_system"
  by (simp add: gate_inv_def new_system_def new_gate_def)

section \<open>Properties\<close>

text \<open>
  C31. A paused gate is quiescent: in every interleaving of claims, pauses, resumes and closes, the
  counter equals the number of claim sections being executed, and whenever the gate is PAUSED no
  claim section is being executed and none can be entered.
\<close>

theorem paused_gate_quiescent:
  assumes "s = after_all gate_post new_system cs"
  shows "claim_in_progress (the_gate s) = int (inside s) \<and>
         (gate_state (the_gate s) = PAUSED \<longrightarrow>
            inside s = 0 \<and> enter_claim (the_gate s) = (Inr False, the_gate s))"
  using gate_machine.history_inv [OF new_system_inv, of cs] assms
  by (auto simp: gate_inv_def enter_claim_def)

theorem paused_gate_quiescent_witness:
  "inside (after_all gate_post new_system [Enter, PauseBegin None 0, Exit, PausePoll 0 None 0]) = 0 \<and>
   gate_state (the_gate (after_all gate_post new_system
     [Enter, PauseBegin None 0, Exit, PausePoll 0 None 0])) = PAUSED"
proof -
  let ?s = "after_all gate_post new_system [Enter, PauseBegin None 0, Exit, PausePoll 0 None 0]"
  have "gate_state (the_gate ?s) = PAUSED"
    by (simp add: gate_defs new_system_def new_gate_def)
  with paused_gate_quiescent [OF refl, of "[Enter, PauseBegin None 0, Exit, PausePoll 0 None 0]"]
  show ?thesis by simp
qed

text \<open>
  C32. Closing is not final: when a gate is closed while a \<^verbatim>\<open>pause\<close> is polling and no claim
  is in progress, the poll overwrites CLOSED with PAUSED, and a following \<^verbatim>\<open>resume\<close> opens
  the gate, so that claims are admitted again after \<^verbatim>\<open>close\<close>.
\<close>

theorem close_lost_to_pause:
  assumes "gate_state g = PAUSING" "claim_in_progress g = 0"
  shows "\<exists>g'. pause_poll (close_gate g) None deadline clk = (PauseReached, g') \<and>
           gate_state g' = PAUSED \<and> fst (enter_claim (resume g')) = Inr True"
  using assms by (simp add: gate_defs)

theorem close_lost_to_pause_witness:
  "\<exists>g'. pause_poll (close_gate (new_gate\<lparr>gate_state := PAUSING, pause_owner := True\<rparr>)) None None 0
      = (PauseReached, g') \<and> fst (enter_claim (resume g')) = Inr True"
  using close_lost_to_pause [of "new_gate\<lparr>gate_state := PAUSING, pause_owner := True\<rparr>" None 0]
  by (auto simp: new_gate_def)

end
