(* ===== verification/Scheduler.thy ===== *)
theory Scheduler
  imports State_Machine Plan_Graph Claim_Gate Budget
begin

text \<open>
  \<^verbatim>\<open>core/runtime/scheduler.py\<close>: registration of a plan's steps, propagation of BLOCKED,
  computation of the ready steps and the claim section. A call works on the objects of
  \<open>world\<close>: the scheduler's binding, its claim gate, the Run state and the optional budget
  ledger. Each call runs under the scheduler's and the state's locks, so it is one step; it
  returns its outcome and the world it leaves, also when it raises. Clock readings and
  reservation ids are arguments: \<open>clock i\<close> are the two readings taken when the \<open>i\<close>-th step
  of the plan is registered.
\<close>

section \<open>Data\<close>

definition blocking_status :: "step_status \<Rightarrow> bool" where
  "blocking_status s \<longleftrightarrow> s \<in> {S_FAILED, S_CANCELLED, S_BLOCKED, S_SKIPPED}"

datatype mismatch = RunNotRunning | StepNameDiffers | StepNotRegistered | OtherBinding

datatype scheduler_error =
    OccurredAtInvalid
  | ParallelismInvalid
  | GraphInvalid graph_error
  | RunStateInvalid state_error
  | PlanStateMismatch mismatch "string option" string
  | PartialClaim "string list" string string
  | ClaimFailed string string
  | MachineRaised machine_error
  | EventInvalid event_error
  | BudgetRaised budget_error
  | GateRaised gate_error
  | StepLookupFailed string

record step_claim =
  claim_plan_id :: string
  claim_plan_version :: int
  claim_step_id :: string
  claimed_at :: py_datetime
  claim_requirements :: task_capability_requirements
  claim_preferred_agent :: string

record scheduler_snapshot =
  ready_step_ids :: "string list"
  running_step_ids :: "string list"
  pending_step_ids :: "string list"
  blocked_step_ids :: "string list"
  terminal_step_ids :: "string list"
  is_complete :: bool
  is_waiting :: bool
  has_unresolved_pending :: bool
  claimable_step_ids :: "string list"
  snapshot_parallelism :: int
  available_slots :: int

type_synonym signature_entry =
  "string \<times> string \<times> string list \<times> string \<times> task_capability_requirements"

type_synonym binding = "string \<times> string \<times> int \<times> signature_entry list"

record world =
  w_binding :: "binding option"
  w_gate :: claim_gate
  w_state :: agent_state
  w_ledger :: "ledger option"

type_synonym 'a call = "(scheduler_error + 'a) \<times> world"

section \<open>Guards and lookups\<close>

definition scheduler_validate_utc :: "py_datetime \<Rightarrow> scheduler_error option" where
  "scheduler_validate_utc d = (if \<not> is_utc d then Some OccurredAtInvalid else None)"

definition validate_parallelism :: "int \<Rightarrow> scheduler_error option" where
  "validate_parallelism n = (if n \<le> 0 then Some ParallelismInvalid else None)"

definition effective_time :: "py_datetime \<Rightarrow> agent_state \<Rightarrow> py_datetime" where
  "effective_time t s = dt_max t (updated_at s)"

text \<open>\<^verbatim>\<open>state.steps[k].status\<close> satisfies \<open>P\<close>\<close>

definition status_is :: "agent_state \<Rightarrow> string \<Rightarrow> (step_status \<Rightarrow> bool) \<Rightarrow> bool" where
  "status_is s k P = (case map_of (steps s) k of None \<Rightarrow> False | Some st \<Rightarrow> P (step_status st))"

definition binding_value :: "plan \<Rightarrow> agent_state \<Rightarrow> binding" where
  "binding_value p s = (run_id s, plan_id p, plan_version p,
     map (\<lambda>st. (ps_step_id st, ps_title st, ps_depends_on st, ps_preferred_agent st,
                ps_capability_requirements st)) (plan_steps p))"

definition validate_binding :: "world \<Rightarrow> plan \<Rightarrow> scheduler_error option" where
  "validate_binding w p =
     (case w_binding w of
        None \<Rightarrow> None
      | Some b \<Rightarrow>
          if b \<noteq> binding_value p (w_state w)
          then Some (PlanStateMismatch OtherBinding None
                       (run_status_value (run_status (w_state w))))
          else None)"

section \<open>Registration\<close>

definition name_conflict :: "agent_state \<Rightarrow> plan_step \<Rightarrow> scheduler_error option" where
  "name_conflict s st =
     (case map_of (steps s) (ps_step_id st) of
        None \<Rightarrow> None
      | Some e \<Rightarrow>
          if step_name e \<noteq> ps_title st
          then Some (PlanStateMismatch StepNameDiffers (Some (ps_step_id st))
                       (step_status_value (step_status e)))
          else None)"

fun register_missing ::
  "(nat \<Rightarrow> py_datetime \<times> py_datetime) \<Rightarrow> nat \<Rightarrow> plan_step list \<Rightarrow> agent_state
     \<Rightarrow> scheduler_error option \<times> agent_state" where
  "register_missing clock i [] s = (None, s)"
| "register_missing clock i (st # sts) s =
     (if map_of (steps s) (ps_step_id st) \<noteq> None then register_missing clock (Suc i) sts s
      else case machine_add_step s (ps_step_id st) (ps_title st) (fst (clock i)) (snd (clock i)) of
             (s', Some e) \<Rightarrow> (Some (MachineRaised e), s')
           | (s', None) \<Rightarrow> register_missing clock (Suc i) sts s')"

definition prepare_locked ::
  "world \<Rightarrow> plan \<Rightarrow> (nat \<Rightarrow> py_datetime \<times> py_datetime) \<Rightarrow> plan_graph call" where
  "prepare_locked w p clock =
     (case graph_validate p of
        Inl e \<Rightarrow> (Inl (GraphInvalid e), w)
      | Inr g \<Rightarrow>
     (case or_raise (map_option RunStateInvalid (validate (w_state w)))
          (or_raise (validate_binding w p)
          (or_raise (if run_status (w_state w) \<noteq> R_RUNNING
                     then Some (PlanStateMismatch RunNotRunning None
                                  (run_status_value (run_status (w_state w)))) else None)
            (first_some (name_conflict (w_state w)) (plan_steps p)))) of
        Some e \<Rightarrow> (Inl e, w)
      | None \<Rightarrow>
     (case register_missing clock 0 (plan_steps p) (w_state w) of
        (Some e, s) \<Rightarrow> (Inl e, w\<lparr>w_state := s\<rparr>)
      | (None, s) \<Rightarrow> (Inr g, w\<lparr>w_state := s, w_binding := Some (binding_value p s)\<rparr>))))"

definition plan_state_alignment :: "world \<Rightarrow> plan \<Rightarrow> scheduler_error option" where
  "plan_state_alignment w p =
     or_raise (map_option RunStateInvalid (validate (w_state w)))
    (or_raise (validate_binding w p)
    (first_some
       (\<lambda>st. if map_of (steps (w_state w)) (ps_step_id st) = None
             then Some (PlanStateMismatch StepNotRegistered (Some (ps_step_id st)) ''MISSING'')
             else name_conflict (w_state w) st) (plan_steps p)))"

section \<open>Propagation of BLOCKED\<close>

text \<open>Building an event and applying it, as one expression of the source.\<close>

definition apply_built :: "agent_state \<Rightarrow> step_state_event \<Rightarrow> scheduler_error option \<times> agent_state" where
  "apply_built s e =
     (case step_event_check e of
        Some x \<Rightarrow> (Some (EventInvalid x), s)
      | None \<Rightarrow> (case apply_step_event s e of (s', err) \<Rightarrow> (map_option MachineRaised err, s')))"

definition blocked_message :: string where
  "blocked_message = map (char_of :: nat \<Rightarrow> char)
     [229, 137, 141, 231, 189, 174, 230, 173, 165, 233, 170, 164, 230, 156, 170, 230,
      136, 144, 229, 138, 159, 239, 188, 140, 229, 189, 147, 229, 137, 141, 230, 173,
      165, 233, 170, 164, 230, 151, 160, 230, 179, 149, 230, 137, 167, 232, 161, 140]"

definition blocked_event :: "string \<Rightarrow> py_datetime \<Rightarrow> step_state_event" where
  "blocked_event k t = \<lparr>se_type = SE_BLOCKED, se_step_id = k, se_occurred_at = t,
     se_error_code = Some ''DEPENDENCY_NOT_SUCCESSFUL'', se_error_message = Some blocked_message\<rparr>"

definition must_block :: "plan_graph \<Rightarrow> agent_state \<Rightarrow> string \<Rightarrow> bool" where
  "must_block g s k \<longleftrightarrow> status_is s k (\<lambda>x. x = S_PENDING) \<and>
     list_ex (\<lambda>d. status_is s d blocking_status) (dependencies_of g k)"

text \<open>One pass of the \<^verbatim>\<open>for\<close> loop; the flag is \<^verbatim>\<open>changed\<close>.\<close>

fun propagate_pass ::
  "plan_graph \<Rightarrow> py_datetime \<Rightarrow> string list \<Rightarrow> agent_state
     \<Rightarrow> scheduler_error option \<times> agent_state \<times> bool" where
  "propagate_pass g t [] s = (None, s, False)"
| "propagate_pass g t (k # ks) s =
     (if map_of (steps s) k = None then (Some (StepLookupFailed k), s, False)
      else if must_block g s k then
        (case apply_built s (blocked_event k (effective_time t s)) of
           (Some e, s') \<Rightarrow> (Some e, s', True)
         | (None, s') \<Rightarrow>
             (case propagate_pass g t ks s' of (err, s'', c) \<Rightarrow> (err, s'', True)))
      else propagate_pass g t ks s)"

definition pending_ids :: "agent_state \<Rightarrow> string set" where
  "pending_ids s = {k. status_is s k (\<lambda>x. x = S_PENDING)}"

lemma finite_pending [simp]: "finite (pending_ids s)"
  by (rule finite_subset [OF _ finite_dom_map_of [of "steps s"]])
     (auto simp: pending_ids_def status_is_def split: option.splits)

lemma apply_built_None:
  assumes "apply_built s e = (None, s')"
  shows "step_event_check e = None \<and> apply_step_event s e = (s', None)"
  using assms by (auto simp: apply_built_def split: option.splits prod.splits)

lemma lookup_result:
  "map_of (steps (step_event_result s e st target)) =
     (map_of (steps s))(se_step_id e \<mapsto> step_event_effect st e target)"
  by (simp add: step_event_result_def)

lemma block_pending:
  assumes "apply_built s (blocked_event k t) = (None, s')"
  shows "pending_ids s' = pending_ids s - {k} \<and> k \<in> pending_ids s"
proof -
  obtain st target where en: "step_event_enabled s (blocked_event k t) st target"
      "s' = step_event_result s (blocked_event k t) st target"
    using apply_built_None [OF assms] step_event_accepted by blast
  then have st: "map_of (steps s) k = Some st" "step_status st = S_PENDING" "target = S_BLOCKED"
    by (cases "step_status st"; simp add: step_event_enabled_def blocked_event_def)+
  have "se_step_id (blocked_event k t) = k" by (simp add: blocked_event_def)
  with st en(2) show ?thesis
    by (auto simp: pending_ids_def status_is_def lookup_result split: if_splits)
qed

lemma pass_cases:
  assumes "propagate_pass g t (k # ks) s = (None, s', c)"
  shows "(\<not> must_block g s k \<and> propagate_pass g t ks s = (None, s', c)) \<or>
         (\<exists>s1 c1. must_block g s k \<and> c \<and>
            apply_built s (blocked_event k (effective_time t s)) = (None, s1) \<and>
            propagate_pass g t ks s1 = (None, s', c1))"
  using assms by (auto split: if_splits prod.splits option.splits)

lemma pass_pending:
  "propagate_pass g t ks s = (None, s', c) \<Longrightarrow>
     pending_ids s' \<subseteq> pending_ids s \<and> (c \<longrightarrow> pending_ids s' \<subset> pending_ids s) \<and> (\<not> c \<longrightarrow> s' = s)"
proof (induction ks arbitrary: s c)
  case (Cons k ks)
  from pass_cases [OF Cons.prems] show ?case
  proof (elim disjE exE conjE)
    assume "propagate_pass g t ks s = (None, s', c)"
    then show ?thesis by (rule Cons.IH)
  next
    fix s1 c1
    assume "c" "apply_built s (blocked_event k (effective_time t s)) = (None, s1)"
      and rest: "propagate_pass g t ks s1 = (None, s', c1)"
    with block_pending Cons.IH [OF rest] show ?thesis by blast
  qed
qed simp

function propagate_loop ::
  "plan_graph \<Rightarrow> py_datetime \<Rightarrow> agent_state \<Rightarrow> scheduler_error option \<times> agent_state" where
  "propagate_loop g t s =
     (case propagate_pass g t (topological_order g) s of
        (Some e, s', c) \<Rightarrow> (Some e, s')
      | (None, s', c) \<Rightarrow> if c then propagate_loop g t s' else (None, s'))"
  by pat_completeness auto
termination
  by (relation "measure (\<lambda>(g, t, s). card (pending_ids s))")
     (auto dest!: pass_pending [OF sym] intro: psubset_card_mono)

declare propagate_loop.simps [simp del]

definition propagate_blocked ::
  "plan_graph \<Rightarrow> agent_state \<Rightarrow> py_datetime \<Rightarrow> scheduler_error option \<times> agent_state" where
  "propagate_blocked g s t =
     (if run_status s \<noteq> R_RUNNING then (None, s) else propagate_loop g t s)"

section \<open>Ready steps and snapshots\<close>

definition step_ready :: "plan_graph \<Rightarrow> agent_state \<Rightarrow> string \<Rightarrow> bool" where
  "step_ready g s k \<longleftrightarrow>
     status_is s k (\<lambda>x. x = S_PENDING) \<and> k \<notin> active_step_ids s \<and>
     list_all (\<lambda>d. status_is s d (\<lambda>x. x = S_SUCCEEDED)) (dependencies_of g k)"

definition compute_ready_steps :: "plan \<Rightarrow> plan_graph \<Rightarrow> agent_state \<Rightarrow> plan_step list" where
  "compute_ready_steps p g s =
     (if run_status s \<noteq> R_RUNNING then []
      else List.map_filter
             (\<lambda>k. if step_ready g s k
                  then map_of (map (\<lambda>st. (ps_step_id st, st)) (plan_steps p)) k else None)
             (topological_order g))"

definition running_steps :: "plan \<Rightarrow> agent_state \<Rightarrow> plan_step list" where
  "running_steps p s =
     filter (\<lambda>st. status_is s (ps_step_id st) (\<lambda>x. x = S_RUNNING)) (plan_steps p)"

definition build_snapshot :: "plan \<Rightarrow> plan_graph \<Rightarrow> agent_state \<Rightarrow> int \<Rightarrow> scheduler_snapshot" where
  "build_snapshot p g s n =
     (let ready = map ps_step_id (compute_ready_steps p g s);
          slots = max 0 (n - int (length (running_steps p s)));
          running = filter (\<lambda>k. status_is s k (\<lambda>x. x = S_RUNNING)) (topological_order g);
          pending = filter (\<lambda>k. status_is s k (\<lambda>x. x = S_PENDING)) (topological_order g)
      in \<lparr>ready_step_ids = ready, running_step_ids = running, pending_step_ids = pending,
          blocked_step_ids = filter (\<lambda>k. status_is s k (\<lambda>x. x = S_BLOCKED)) (topological_order g),
          terminal_step_ids = filter (\<lambda>k. status_is s k terminal_step) (topological_order g),
          is_complete = list_all (\<lambda>k. status_is s k (\<lambda>x. x = S_SUCCEEDED)) (topological_order g),
          is_waiting = (running \<noteq> [] \<and> ready = []),
          has_unresolved_pending = (pending \<noteq> [] \<and> running = [] \<and> ready = []),
          claimable_step_ids = take (nat slots) ready,
          snapshot_parallelism = n, available_slots = slots\<rparr>)"

definition prepare ::
  "world \<Rightarrow> plan \<Rightarrow> py_datetime \<Rightarrow> int \<Rightarrow> (nat \<Rightarrow> py_datetime \<times> py_datetime) \<Rightarrow> scheduler_snapshot call" where
  "prepare w p occurred n clock =
     (case or_raise (scheduler_validate_utc occurred) (validate_parallelism n) of
        Some e \<Rightarrow> (Inl e, w)
      | None \<Rightarrow>
     (case prepare_locked w p clock of
        (Inl e, w1) \<Rightarrow> (Inl e, w1)
      | (Inr g, w1) \<Rightarrow>
     (case propagate_blocked g (w_state w1) (effective_time occurred (w_state w1)) of
        (Some e, s) \<Rightarrow> (Inl e, w1\<lparr>w_state := s\<rparr>)
      | (None, s) \<Rightarrow> (Inr (build_snapshot p g s n), w1\<lparr>w_state := s\<rparr>))))"

definition evaluate :: "world \<Rightarrow> plan \<Rightarrow> int \<Rightarrow> py_datetime \<Rightarrow> scheduler_snapshot call" where
  "evaluate w p n now =
     (case validate_parallelism n of
        Some e \<Rightarrow> (Inl e, w)
      | None \<Rightarrow>
     (case graph_validate p of
        Inl e \<Rightarrow> (Inl (GraphInvalid e), w)
      | Inr g \<Rightarrow>
     (case plan_state_alignment w p of
        Some e \<Rightarrow> (Inl e, w)
      | None \<Rightarrow>
     (case propagate_blocked g (w_state w) (effective_time now (w_state w)) of
        (Some e, s) \<Rightarrow> (Inl e, w\<lparr>w_state := s\<rparr>)
      | (None, s) \<Rightarrow> (Inr (build_snapshot p g s n), w\<lparr>w_state := s\<rparr>)))))"

section \<open>The claim section\<close>

definition start_event :: "string \<Rightarrow> py_datetime \<Rightarrow> step_state_event" where
  "start_event k t = \<lparr>se_type = SE_STARTED, se_step_id = k, se_occurred_at = t,
     se_error_code = None, se_error_message = None\<rparr>"

definition current_state_of :: "agent_state \<Rightarrow> string \<Rightarrow> string" where
  "current_state_of s k =
     (case map_of (steps s) k of None \<Rightarrow> ''MISSING'' | Some st \<Rightarrow> step_status_value (step_status st))"

definition mk_claim :: "plan \<Rightarrow> plan_step \<Rightarrow> agent_state \<Rightarrow> py_datetime \<Rightarrow> step_claim" where
  "mk_claim p st s claim_at =
     \<lparr>claim_plan_id = plan_id p, claim_plan_version = plan_version p, claim_step_id = ps_step_id st,
      claimed_at = (case map_of (steps s) (ps_step_id st) of
                      None \<Rightarrow> claim_at
                    | Some x \<Rightarrow> (case step_started_at x of None \<Rightarrow> claim_at | Some t \<Rightarrow> t)),
      claim_requirements = ps_capability_requirements st,
      claim_preferred_agent = ps_preferred_agent st\<rparr>"

datatype claim_outcome =
    AllClaimed "step_claim list"
  | StartRaised "step_claim list" string string
  | StartIneffective "step_claim list" string string

fun claim_loop ::
  "plan \<Rightarrow> py_datetime \<Rightarrow> plan_step list \<Rightarrow> step_claim list \<Rightarrow> agent_state
     \<Rightarrow> claim_outcome \<times> agent_state" where
  "claim_loop p t [] claims s = (AllClaimed claims, s)"
| "claim_loop p t (st # sts) claims s =
     (let k = ps_step_id st; claim_at = effective_time t s in
      case apply_built s (start_event k claim_at) of
        (Some e, s') \<Rightarrow> (StartRaised claims k (current_state_of s' k), s')
      | (None, s') \<Rightarrow>
          if \<not> status_is s' k (\<lambda>x. x = S_RUNNING) \<or> k \<notin> active_step_ids s'
          then (StartIneffective claims k (current_state_of s' k), s')
          else claim_loop p t sts (claims @ [mk_claim p st s' claim_at]) s')"

definition step_start_usage :: "nat \<Rightarrow> usage" where
  "step_start_usage n =
     \<lparr>amount = (\<lambda>d. if d = step_starts then int n else 0), allow_independent_total = False\<rparr>"

text \<open>Settling the reservation after the claims: a commit of what was started, or a release.\<close>

definition settle ::
  "ledger option \<Rightarrow> reservation option \<Rightarrow> bool \<Rightarrow> nat \<Rightarrow> reading
     \<Rightarrow> scheduler_error option \<times> ledger option" where
  "settle lo ro failed n env =
     (case (lo, ro) of
        (Some l, Some r) \<Rightarrow>
          (case (if failed \<and> n = 0 then release l r env
                 else commit l r (Some (step_start_usage n)) env) of
             (Inl e, l') \<Rightarrow> (Some (BudgetRaised e), Some l')
           | (Inr _, l') \<Rightarrow> (None, Some l'))
      | _ \<Rightarrow> (None, lo))"

definition claim_ready_entered ::
  "world \<Rightarrow> plan \<Rightarrow> int \<Rightarrow> py_datetime \<Rightarrow> (nat \<Rightarrow> py_datetime \<times> py_datetime) \<Rightarrow> string \<Rightarrow> reading \<Rightarrow> reading
     \<Rightarrow> step_claim list call" where
  "claim_ready_entered w p n occurred clock rid env env' =
     (case prepare_locked w p clock of
        (Inl e, w1) \<Rightarrow> (Inl e, w1)
      | (Inr g, w1) \<Rightarrow>
     (let t = effective_time occurred (w_state w1) in
      case propagate_blocked g (w_state w1) t of
        (Some e, s) \<Rightarrow> (Inl e, w1\<lparr>w_state := s\<rparr>)
      | (None, s) \<Rightarrow>
     (let w2 = w1\<lparr>w_state := s\<rparr>;
          slots = max 0 (n - int (length (running_steps p s)));
          candidates = take (nat slots) (compute_ready_steps p g s);
          reserved = (case w_ledger w2 of
                        None \<Rightarrow> (Inr None, None)
                      | Some l \<Rightarrow>
                          (case reserve l (step_start_usage (length candidates)) ''step_start'' None None
                                  rid env of
                             (Inl e, l') \<Rightarrow> (Inl e, Some l')
                           | (Inr r, l') \<Rightarrow> (Inr (Some r), Some l')))
      in case reserved of
           (Inl e, lo) \<Rightarrow> (Inl (BudgetRaised e), w2\<lparr>w_ledger := lo\<rparr>)
         | (Inr ro, lo) \<Rightarrow>
     (let w3 = w2\<lparr>w_ledger := lo\<rparr> in
      case first_some
             (\<lambda>st. if \<not> status_is s (ps_step_id st) (\<lambda>x. x = S_PENDING) \<or>
                      ps_step_id st \<in> active_step_ids s
                   then Some (ClaimFailed (ps_step_id st) (current_state_of s (ps_step_id st)))
                   else None) candidates of
        Some e \<Rightarrow> (Inl e, w3)
      | None \<Rightarrow>
     (case claim_loop p t candidates [] s of
        (AllClaimed claims, s') \<Rightarrow>
          (case settle lo ro False (length claims) env' of
             (Some e, lo') \<Rightarrow> (Inl e, w3\<lparr>w_state := s', w_ledger := lo'\<rparr>)
           | (None, lo') \<Rightarrow> (Inr claims, w3\<lparr>w_state := s', w_ledger := lo'\<rparr>))
      | (StartRaised claims k cur, s') \<Rightarrow>
          (case settle lo ro True (length claims) env' of
             (Some e, lo') \<Rightarrow> (Inl e, w3\<lparr>w_state := s', w_ledger := lo'\<rparr>)
           | (None, lo') \<Rightarrow>
               (Inl (if claims \<noteq> [] then PartialClaim (map claim_step_id claims) k cur
                     else ClaimFailed k cur), w3\<lparr>w_state := s', w_ledger := lo'\<rparr>))
      | (StartIneffective claims k cur, s') \<Rightarrow>
          (case settle lo ro True (length claims) env' of
             (Some e, lo') \<Rightarrow> (Inl e, w3\<lparr>w_state := s', w_ledger := lo'\<rparr>)
           | (None, lo') \<Rightarrow>
               (Inl (PartialClaim (map claim_step_id claims) k cur),
                w3\<lparr>w_state := s', w_ledger := lo'\<rparr>)))))))"

text \<open>\<^verbatim>\<open>claim_ready\<close>: the claim section inside the gate, which is left on every path.\<close>

definition claim_ready ::
  "world \<Rightarrow> plan \<Rightarrow> int \<Rightarrow> py_datetime \<Rightarrow> (nat \<Rightarrow> py_datetime \<times> py_datetime) \<Rightarrow> string \<Rightarrow> reading \<Rightarrow> reading
     \<Rightarrow> step_claim list call" where
  "claim_ready w p n occurred clock rid env env' =
     (case or_raise (validate_parallelism n) (scheduler_validate_utc occurred) of
        Some e \<Rightarrow> (Inl e, w)
      | None \<Rightarrow>
     (case enter_claim (w_gate w) of
        (Inl e, g) \<Rightarrow> (Inl (GateRaised e), w\<lparr>w_gate := g\<rparr>)
      | (Inr False, g) \<Rightarrow> (Inr [], w\<lparr>w_gate := g\<rparr>)
      | (Inr True, g) \<Rightarrow>
     (case claim_ready_entered (w\<lparr>w_gate := g\<rparr>) p n occurred clock rid env env' of
        (out, w') \<Rightarrow>
          (case exit_claim (w_gate w') of
             (Some e, g') \<Rightarrow> (Inl (GateRaised e), w'\<lparr>w_gate := g'\<rparr>)
           | (None, g') \<Rightarrow> (out, w'\<lparr>w_gate := g'\<rparr>)))))"

definition claim_next ::
  "world \<Rightarrow> plan \<Rightarrow> py_datetime \<Rightarrow> (nat \<Rightarrow> py_datetime \<times> py_datetime) \<Rightarrow> reading \<Rightarrow> step_claim option call" where
  "claim_next w p occurred clock env =
     (case claim_ready (w\<lparr>w_ledger := None\<rparr>) p 1 occurred clock [] env env of
        (Inl e, w') \<Rightarrow> (Inl e, w'\<lparr>w_ledger := w_ledger w\<rparr>)
      | (Inr claims, w') \<Rightarrow>
          (Inr (case claims of [] \<Rightarrow> None | c # _ \<Rightarrow> Some c), w'\<lparr>w_ledger := w_ledger w\<rparr>))"

section \<open>The scheduler changes a Run only through the state machine\<close>

definition machine_reaches :: "agent_state \<Rightarrow> agent_state \<Rightarrow> bool" where
  "machine_reaches s s' \<longleftrightarrow> (\<exists>cs. s' = after_all machine_post s cs)"

lemma machine_reaches_refl [simp]: "machine_reaches s s"
  unfolding machine_reaches_def by (rule exI [of _ "[]"]) simp

lemma machine_reaches_one: "machine_reaches s (machine_post s c)"
  unfolding machine_reaches_def by (rule exI [of _ "[c]"]) simp

lemma machine_reaches_trans: "machine_reaches s t \<Longrightarrow> machine_reaches t u \<Longrightarrow> machine_reaches s u"
  unfolding machine_reaches_def by (metis foldl_append)

lemma machine_reaches_valid: "machine_reaches s s' \<Longrightarrow> validate s = None \<Longrightarrow> validate s' = None"
  by (auto simp: machine_reaches_def intro: run_machine.history_inv)

lemma machine_reaches_advance: "machine_reaches s s' \<Longrightarrow> validate s = None \<Longrightarrow> steps_advance s s'"
  by (auto simp: machine_reaches_def intro: step_evolution.history_rel)

lemma apply_built_reaches: "apply_built s e = (err, s') \<Longrightarrow> machine_reaches s s'"
  using machine_reaches_one [of s "ApplyStepEvent e"]
  by (auto simp: apply_built_def machine_post_def split: option.splits prod.splits)

lemma add_step_reaches: "machine_add_step s i n a b = (s', err) \<Longrightarrow> machine_reaches s s'"
  using machine_reaches_one [of s "AddStep i n a b"] by (simp add: machine_post_def)

lemma register_missing_reaches: "register_missing clock i sts s = (err, s') \<Longrightarrow> machine_reaches s s'"
proof (induction clock i sts s rule: register_missing.induct)
  case (2 clock i st sts s)
  then show ?case
    by (auto split: if_splits prod.splits option.splits
        intro: add_step_reaches machine_reaches_trans)
qed simp

lemma propagate_pass_reaches: "propagate_pass g t ks s = (err, s', c) \<Longrightarrow> machine_reaches s s'"
proof (induction g t ks s arbitrary: c rule: propagate_pass.induct)
  case (2 g t k ks s)
  then show ?case
    by (auto split: if_splits prod.splits option.splits
        intro: apply_built_reaches machine_reaches_trans)
qed simp

lemma propagate_loop_reaches: "propagate_loop g t s = (err, s') \<Longrightarrow> machine_reaches s s'"
proof (induction g t s rule: propagate_loop.induct)
  case (1 g t s)
  obtain e s1 c where pass: "propagate_pass g t (topological_order g) s = (e, s1, c)"
    by (cases "propagate_pass g t (topological_order g) s") auto
  note r1 = propagate_pass_reaches [OF pass]
  show ?case
  proof (cases "e = None \<and> c")
    case True
    then have "propagate_loop g t s1 = (err, s')"
      using 1(2) pass by (subst (asm) propagate_loop.simps) simp
    with 1(1) [OF pass [symmetric]] True r1 show ?thesis by (auto intro: machine_reaches_trans)
  next
    case False
    then have "s' = s1"
      using 1(2) pass by (subst (asm) propagate_loop.simps) (auto split: option.splits)
    with r1 show ?thesis by simp
  qed
qed

lemma propagate_blocked_reaches: "propagate_blocked g s t = (err, s') \<Longrightarrow> machine_reaches s s'"
  by (auto simp: propagate_blocked_def intro: propagate_loop_reaches split: if_splits)

lemma claim_loop_reaches: "claim_loop p t sts cl s = (out, s') \<Longrightarrow> machine_reaches s s'"
proof (induction p t sts cl s rule: claim_loop.induct)
  case (2 p t st sts cl s)
  then show ?case
    by (auto simp: Let_def split: if_splits prod.splits option.splits
        intro: apply_built_reaches machine_reaches_trans)
qed simp

lemma prepare_locked_reaches:
  "prepare_locked w p clock = (out, w') \<Longrightarrow> machine_reaches (w_state w) (w_state w')"
  by (auto simp: prepare_locked_def dest: register_missing_reaches
      split: sum.splits option.splits prod.splits)

lemma claim_ready_entered_reaches:
  "claim_ready_entered w p n occurred clock rid env env' = (out, w') \<Longrightarrow>
   machine_reaches (w_state w) (w_state w')"
  by (auto simp: claim_ready_entered_def Let_def
      dest!: prepare_locked_reaches propagate_blocked_reaches claim_loop_reaches
      split: sum.splits option.splits prod.splits claim_outcome.splits
      intro: machine_reaches_trans)

section \<open>The fixpoint of BLOCKED\<close>

lemma pass_unchanged:
  "propagate_pass g t ks s = (None, s', False) \<Longrightarrow> s' = s \<and> (\<forall>k \<in> set ks. \<not> must_block g s k)"
proof (induction ks)
  case (Cons k ks)
  with pass_cases [OF Cons.prems] show ?case by auto
qed simp

lemma propagate_loop_fixpoint:
  "propagate_loop g t s = (None, s') \<Longrightarrow> \<forall>k \<in> set (topological_order g). \<not> must_block g s' k"
proof (induction g t s rule: propagate_loop.induct)
  case (1 g t s)
  obtain e s1 c where pass: "propagate_pass g t (topological_order g) s = (e, s1, c)"
    by (cases "propagate_pass g t (topological_order g) s") auto
  with 1(2) have e: "e = None"
    by (cases e) (auto simp: propagate_loop.simps [of g t s])
  show ?case
  proof (cases c)
    case True
    then have "propagate_loop g t s1 = (None, s')"
      using 1(2) pass e by (simp add: propagate_loop.simps [of g t s])
    with 1(1) [OF pass [symmetric]] e True show ?thesis by blast
  next
    case False
    then have "s' = s1" using 1(2) pass e by (simp add: propagate_loop.simps [of g t s])
    with pass_unchanged [of g t "topological_order g" s s1] pass e False show ?thesis by simp
  qed
qed

section \<open>What a claim establishes\<close>

definition running_set :: "agent_state \<Rightarrow> string set" where
  "running_set s = {k. status_is s k (\<lambda>x. x = S_RUNNING)}"

lemma status_is_update:
  "status_is (step_event_result s e st target) k P \<longleftrightarrow>
     (if k = se_step_id e then P target else status_is s k P)"
  by (simp add: status_is_def lookup_result)

lemma status_is_unique: "status_is s k (\<lambda>x. x = a) \<Longrightarrow> status_is s k (\<lambda>x. x = b) \<Longrightarrow> a = b"
  by (auto simp: status_is_def split: option.splits)

lemma block_running:
  assumes "apply_built s (blocked_event k t) = (None, s')"
  shows "running_set s' = running_set s"
proof -
  obtain st target where en: "step_event_enabled s (blocked_event k t) st target"
      "s' = step_event_result s (blocked_event k t) st target"
    using apply_built_None [OF assms] step_event_accepted by blast
  then have "map_of (steps s) k = Some st" "step_status st = S_PENDING" "target = S_BLOCKED"
    by (cases "step_status st"; simp add: step_event_enabled_def blocked_event_def)+
  with en(2) show ?thesis
    by (auto simp: running_set_def status_is_def lookup_result blocked_event_def split: if_splits)
qed

lemma pass_running: "propagate_pass g t ks s = (None, s', c) \<Longrightarrow> running_set s' = running_set s"
proof (induction ks arbitrary: s c)
  case (Cons k ks)
  then show ?case using pass_cases [OF Cons.prems] block_running by metis
qed simp

lemma propagate_loop_running: "propagate_loop g t s = (None, s') \<Longrightarrow> running_set s' = running_set s"
proof (induction g t s rule: propagate_loop.induct)
  case (1 g t s)
  obtain e s1 c where pass: "propagate_pass g t (topological_order g) s = (e, s1, c)"
    by (cases "propagate_pass g t (topological_order g) s") auto
  with 1(2) have e: "e = None"
    by (cases e) (auto simp: propagate_loop.simps [of g t s])
  have r: "running_set s1 = running_set s" using pass_running pass e by blast
  show ?case
  proof (cases c)
    case True
    then have "propagate_loop g t s1 = (None, s')"
      using 1(2) pass e by (simp add: propagate_loop.simps [of g t s])
    with 1(1) [OF pass [symmetric]] e True r show ?thesis by simp
  next
    case False
    then show ?thesis using 1(2) pass e r by (simp add: propagate_loop.simps [of g t s])
  qed
qed

lemma add_step_result:
  assumes "machine_add_step s i n a b = (s', None)"
  shows "validate s = None \<and> map_of (steps s) i = None \<and>
         map_of (steps s') = (map_of (steps s))(i \<mapsto> new_step i n a) \<and> run_status s' = R_RUNNING"
proof -
  have s: "validate s = None" "run_status s = R_RUNNING" "register_step_locked s i n a b = (s', None)"
    using assms by (auto simp: machine_add_step_def split: option.splits if_splits)
  note reg = register_accepted [OF s(1,3)]
  then have "i \<notin> dom (map_of (steps s))" by auto
  with reg s show ?thesis
    by (auto simp: register_result_def map_add_def fun_eq_iff split: option.splits)
qed

lemma add_step_running: "machine_add_step s i n a b = (s', None) \<Longrightarrow> running_set s' = running_set s"
  using add_step_result [of s i n a b s']
  by (auto simp: running_set_def status_is_def new_step_def split: if_splits)

lemma register_missing_facts:
  "register_missing clock i sts s = (None, s') \<Longrightarrow> run_status s = R_RUNNING \<Longrightarrow>
   running_set s' = running_set s \<and> run_status s' = R_RUNNING \<and>
   (\<forall>st \<in> set sts. map_of (steps s') (ps_step_id st) \<noteq> None) \<and>
   (\<forall>k st. map_of (steps s) k = Some st \<longrightarrow> map_of (steps s') k = Some st)"
proof (induction clock i sts s rule: register_missing.induct)
  case (2 clock i st sts s)
  show ?case
  proof (cases "map_of (steps s) (ps_step_id st)")
    case None
    obtain s1 e where one: "machine_add_step s (ps_step_id st) (ps_title st) (fst (clock i)) (snd (clock i)) = (s1, e)"
      by fastforce
    with None 2(3) have e: "e = None" and rest: "register_missing clock (Suc i) sts s1 = (None, s')"
      by (auto split: option.splits)
    note add = add_step_result [OF one [unfolded e]] add_step_running [OF one [unfolded e]]
    have IH: "running_set s' = running_set s1 \<and> run_status s' = R_RUNNING \<and>
        (\<forall>st \<in> set sts. map_of (steps s') (ps_step_id st) \<noteq> None) \<and>
        (\<forall>k st. map_of (steps s1) k = Some st \<longrightarrow> map_of (steps s') k = Some st)"
      using 2(2) [OF _ one [symmetric] e] None rest add(1) by simp
    have "map_of (steps s') (ps_step_id st) \<noteq> None"
      using IH add(1) by auto
    moreover have "map_of (steps s') k = Some x" if "map_of (steps s) k = Some x" for k x
      using IH add(1) that None by (metis fun_upd_other option.distinct(1))
    ultimately show ?thesis using IH add(2) by auto
  next
    case (Some x)
    then show ?thesis using 2 by auto
  qed
qed simp

lemma mk_claim_id [simp]: "claim_step_id (mk_claim p st s t) = ps_step_id st"
  by (simp add: mk_claim_def)

lemma claim_loop_AllClaimed:
  assumes "claim_loop p t sts cl s = (AllClaimed cl', s')" "distinct (map ps_step_id sts)"
  shows "\<exists>new. cl' = cl @ new \<and> map claim_step_id new = map ps_step_id sts \<and>
           (\<forall>k P. k \<notin> ps_step_id ` set sts \<longrightarrow> status_is s' k P = status_is s k P) \<and>
           (\<forall>k \<in> ps_step_id ` set sts. status_is s k (\<lambda>x. x = S_PENDING) \<and>
              status_is s' k (\<lambda>x. x = S_RUNNING))"
  using assms
proof (induction sts arbitrary: cl s)
  case (Cons st sts)
  let ?k = "ps_step_id st" and ?t = "effective_time t s"
  obtain e s1 where one: "apply_built s (start_event ?k ?t) = (e, s1)" by fastforce
  with Cons.prems(1) have e: "e = None" and run: "status_is s1 ?k (\<lambda>x. x = S_RUNNING)"
      and rest: "claim_loop p t sts (cl @ [mk_claim p st s1 ?t]) s1 = (AllClaimed cl', s')"
    by (auto simp: Let_def split: option.splits if_splits)
  obtain x target where en: "step_event_enabled s (start_event ?k ?t) x target"
      "s1 = step_event_result s (start_event ?k ?t) x target"
    using apply_built_None one e step_event_accepted by blast
  then have x: "map_of (steps s) ?k = Some x" "step_status x = S_PENDING"
    by (cases "step_status x"; simp add: step_event_enabled_def start_event_def)+
  have upd: "status_is s1 k P = (if k = ?k then P target else status_is s k P)" for k P
    using en(2) by (simp add: status_is_update start_event_def)
  obtain new where new: "cl' = (cl @ [mk_claim p st s1 ?t]) @ new" "map claim_step_id new = map ps_step_id sts"
      "\<forall>k P. k \<notin> ps_step_id ` set sts \<longrightarrow> status_is s' k P = status_is s1 k P"
      "\<forall>k \<in> ps_step_id ` set sts. status_is s1 k (\<lambda>x. x = S_PENDING) \<and> status_is s' k (\<lambda>x. x = S_RUNNING)"
    using Cons.IH [OF rest] Cons.prems(2) by auto
  have fresh: "?k \<notin> ps_step_id ` set sts" using Cons.prems(2) by auto
  have pending: "status_is s ?k (\<lambda>x. x = S_PENDING)" using x by (simp add: status_is_def)
  have "status_is s' ?k (\<lambda>x. x = S_RUNNING)" using new(3) fresh run by blast
  moreover have "status_is s k (\<lambda>x. x = S_PENDING)" if "k \<in> ps_step_id ` set sts" for k
    using new(4) upd fresh that by metis
  moreover have "status_is s' k P = status_is s k P" if "k \<noteq> ?k" "k \<notin> ps_step_id ` set sts" for k P
    using new(3) upd that by simp
  ultimately show ?case
    using new(1,2,4) pending by (intro exI [of _ "mk_claim p st s1 ?t # new"]) auto
qed simp

lemma prepare_locked_Inr:
  assumes "prepare_locked w p clock = (Inr g, w1)"
  shows "graph_validate p = Inr g \<and> validate (w_state w) = None \<and> run_status (w_state w) = R_RUNNING \<and>
         register_missing clock 0 (plan_steps p) (w_state w) = (None, w_state w1) \<and>
         w_ledger w1 = w_ledger w \<and> w_gate w1 = w_gate w"
  using assms
  by (auto simp: prepare_locked_def split: sum.splits option.splits prod.splits if_splits)

lemma plan_step_lookup:
  assumes "distinct (plan_ids p)" "st \<in> set (plan_steps p)"
  shows "map_of (map (\<lambda>st. (ps_step_id st, st)) (plan_steps p)) (ps_step_id st) = Some st"
  using assms by (intro map_of_is_SomeI) (auto simp: comp_def)

lemma ready_ids:
  assumes "graph_validate p = Inr g" "run_status s = R_RUNNING"
  shows "map ps_step_id (compute_ready_steps p g s) = filter (step_ready g s) (topological_order g)"
proof -
  note facts = graph_validate_Inr [OF assms(1)]
  let ?find = "map_of (map (\<lambda>st. (ps_step_id st, st)) (plan_steps p))"
  have find: "\<exists>st. ?find k = Some st \<and> ps_step_id st = k" if "k \<in> set (topological_order g)" for k
    using that facts plan_step_lookup [of p] by (auto simp: structure_ok_def)
  have "set ks \<subseteq> set (topological_order g) \<Longrightarrow>
      map ps_step_id (List.map_filter (\<lambda>k. if step_ready g s k then ?find k else None) ks) =
      filter (step_ready g s) ks" for ks
  proof (induction ks)
    case (Cons k ks)
    with find [of k] show ?case by (auto simp: List.map_filter_simps)
  qed (simp add: List.map_filter_simps)
  then show ?thesis using assms(2) by (simp add: compute_ready_steps_def)
qed

lemma running_length:
  assumes "distinct (plan_ids p)"
  shows "length (running_steps p s) = card (running_set s \<inter> set (plan_ids p))"
proof -
  have "length (running_steps p s) = card (set (map ps_step_id (running_steps p s)))"
    using assms by (metis distinct_card distinct_map_filter length_map running_steps_def)
  moreover have "set (map ps_step_id (running_steps p s)) = running_set s \<inter> set (plan_ids p)"
    by (auto simp: running_steps_def running_set_def)
  ultimately show ?thesis by simp
qed

lemma propagate_blocked_facts:
  assumes "propagate_blocked g s t = (None, s')" "run_status s = R_RUNNING"
  shows "running_set s' = running_set s \<and> (\<forall>k \<in> set (topological_order g). \<not> must_block g s' k)"
  using assms propagate_loop_running propagate_loop_fixpoint by (simp add: propagate_blocked_def)

lemma apply_step_event_run_status:
  "apply_step_event s e = (s', err) \<Longrightarrow> run_status s' = run_status s"
  by (cases err) (auto dest!: step_event_accepted step_event_error_unchanged simp: step_event_result_def)

lemma apply_built_run_status: "apply_built s e = (err, s') \<Longrightarrow> run_status s' = run_status s"
  by (auto simp: apply_built_def dest: apply_step_event_run_status split: option.splits prod.splits)

lemma pass_run_status: "propagate_pass g t ks s = (None, s', c) \<Longrightarrow> run_status s' = run_status s"
proof (induction ks arbitrary: s c)
  case (Cons k ks)
  then show ?case using pass_cases [OF Cons.prems] apply_built_run_status by metis
qed simp

lemma propagate_loop_run_status: "propagate_loop g t s = (None, s') \<Longrightarrow> run_status s' = run_status s"
proof (induction g t s rule: propagate_loop.induct)
  case (1 g t s)
  obtain e s1 c where pass: "propagate_pass g t (topological_order g) s = (e, s1, c)"
    by (cases "propagate_pass g t (topological_order g) s") auto
  with 1(2) have e: "e = None"
    by (cases e) (auto simp: propagate_loop.simps [of g t s])
  then show ?case
    using 1 pass pass_run_status [of g t "topological_order g" s s1 c]
    by (cases c) (auto simp: propagate_loop.simps [of g t s])
qed

lemma propagate_running_status: "propagate_blocked g s t = (None, s') \<Longrightarrow> run_status s' = run_status s"
  by (auto simp: propagate_blocked_def propagate_loop_run_status split: if_splits)

text \<open>The stages of a claim that returned.\<close>

lemma claim_ready_entered_Inr:
  assumes "claim_ready_entered w p n occurred clock rid env env' = (Inr claims, w')"
  shows "\<exists>g w1 s. prepare_locked w p clock = (Inr g, w1) \<and>
    propagate_blocked g (w_state w1) (effective_time occurred (w_state w1)) = (None, s) \<and>
    claim_loop p (effective_time occurred (w_state w1))
      (take (nat (max 0 (n - int (length (running_steps p s))))) (compute_ready_steps p g s)) [] s
      = (AllClaimed claims, w_state w')"
proof -
  obtain o1 w1 where prep: "prepare_locked w p clock = (o1, w1)" by fastforce
  with assms obtain g where g: "o1 = Inr g"
    by (cases o1) (auto simp: claim_ready_entered_def)
  obtain e s where blk: "propagate_blocked g (w_state w1) (effective_time occurred (w_state w1)) = (e, s)"
    by fastforce
  with assms prep g have e: "e = None"
    by (cases e) (auto simp: claim_ready_entered_def Let_def)
  show ?thesis
    using assms prep g blk e
    by (auto simp: claim_ready_entered_def Let_def
        split: sum.splits option.splits prod.splits claim_outcome.splits)
qed

lemma claim_ready_Inr:
  assumes "claim_ready w p n occurred clock rid env env' = (Inr claims, w')"
  shows "(claims = [] \<and> w_state w' = w_state w) \<or>
         (\<exists>g w2. claim_ready_entered (w\<lparr>w_gate := g\<rparr>) p n occurred clock rid env env' = (Inr claims, w2) \<and>
            w_state w' = w_state w2)"
  using assms
  by (auto simp: claim_ready_def split: option.splits sum.splits prod.splits bool.splits; blast)

lemma running_after_claims:
  assumes "distinct (map ps_step_id sts)" "claim_loop p t sts [] s = (AllClaimed claims, s')"
  shows "running_set s' = running_set s \<union> set (map ps_step_id sts)"
proof -
  obtain new where "claims = [] @ new" and frame: "\<forall>k P. k \<notin> ps_step_id ` set sts \<longrightarrow> status_is s' k P = status_is s k P"
      and run: "\<forall>k \<in> ps_step_id ` set sts. status_is s k (\<lambda>x. x = S_PENDING) \<and> status_is s' k (\<lambda>x. x = S_RUNNING)"
    using claim_loop_AllClaimed [OF assms(2,1)] by blast
  show ?thesis
  proof (intro set_eqI)
    fix k
    show "k \<in> running_set s' \<longleftrightarrow> k \<in> running_set s \<union> set (map ps_step_id sts)"
      using frame run by (cases "k \<in> ps_step_id ` set sts") (auto simp: running_set_def)
  qed
qed

lemma pending_before:
  assumes "validate s = None" "steps_advance s s'" "status_is s' k (\<lambda>x. x = S_PENDING)"
  shows "map_of (steps s) k = None \<or> status_is s k (\<lambda>x. x = S_PENDING)"
  using assms(2,3)
  by (cases "map_of (steps s) k")
     (fastforce simp: steps_advance_def step_advances_def status_is_def split: option.splits)+

lemma claim_facts:
  assumes "prepare_locked w p clock = (Inr g, w1)"
      and "propagate_blocked g (w_state w1) t = (None, s)"
      and "claim_loop p t (take m (compute_ready_steps p g s)) [] s = (AllClaimed claims, s')"
  shows "run_status s = R_RUNNING \<and> distinct (map claim_step_id claims) \<and> length claims \<le> m \<and>
    running_set s = running_set (w_state w) \<and>
    running_set s' = running_set s \<union> set (map claim_step_id claims) \<and>
    (\<forall>k \<in> set (map claim_step_id claims). k \<in> set (plan_ids p) \<and> step_ready g s k \<and>
       status_is s' k (\<lambda>x. x = S_RUNNING)) \<and>
    (\<forall>d. status_is s d (\<lambda>x. x = S_SUCCEEDED) \<longrightarrow> status_is s' d (\<lambda>x. x = S_SUCCEEDED))"
proof -
  note prep = prepare_locked_Inr [OF assms(1)]
  then have reg: "running_set (w_state w1) = running_set (w_state w)" "run_status (w_state w1) = R_RUNNING"
    using register_missing_facts [of clock 0 "plan_steps p" "w_state w" "w_state w1"] by auto
  have valid1: "validate (w_state w1) = None"
    using prep register_missing_reaches machine_reaches_valid by blast
  note blk = propagate_blocked_facts [OF assms(2) reg(2)]
  have live: "run_status s = R_RUNNING"
    using propagate_running_status [OF assms(2)] reg(2) by simp
  let ?sts = "take m (compute_ready_steps p g s)"
  have ids: "map ps_step_id ?sts = take m (filter (step_ready g s) (topological_order g))"
    using ready_ids [of p g s] prep live by (metis take_map)
  have dist: "distinct (map ps_step_id ?sts)"
    unfolding ids using prep plan_dag.order_all [of p g] by (simp add: distinct_take)
  obtain new where new: "claims = new" "map claim_step_id new = map ps_step_id ?sts"
      "\<forall>k P. k \<notin> ps_step_id ` set ?sts \<longrightarrow> status_is s' k P = status_is s k P"
      "\<forall>k \<in> ps_step_id ` set ?sts. status_is s k (\<lambda>x. x = S_PENDING) \<and> status_is s' k (\<lambda>x. x = S_RUNNING)"
    using claim_loop_AllClaimed [OF assms(3) dist] by auto
  have "k \<in> set (plan_ids p) \<and> step_ready g s k" if "k \<in> set (map claim_step_id claims)" for k
  proof -
    have "k \<in> set (filter (step_ready g s) (topological_order g))"
      using that new(1,2) ids by (metis in_set_takeD)
    then show ?thesis using prep plan_dag.order_all by auto
  qed
  moreover have "length claims \<le> m"
    using new(1,2) by (metis length_map length_take min.cobounded2)
  moreover have "status_is s' d (\<lambda>x. x = S_SUCCEEDED)" if "status_is s d (\<lambda>x. x = S_SUCCEEDED)" for d
  proof -
    have "d \<notin> ps_step_id ` set ?sts"
      using that new(4) status_is_unique [of s d S_SUCCEEDED S_PENDING] by blast
    with that new(3) show ?thesis by blast
  qed
  ultimately show ?thesis
    using live dist new reg(1) blk running_after_claims [OF dist assms(3)] by auto
qed

lemma dependency_known:
  assumes "graph_validate p = Inr g" "k \<in> set (plan_ids p)" "d \<in> set (dependencies_of g k)"
  shows "d \<in> set (plan_ids p)"
proof -
  note facts = graph_validate_Inr [OF assms(1)]
  obtain st where st: "st \<in> set (plan_steps p)" "ps_step_id st = k" using assms(2) by auto
  with facts assms(3) have "d \<in> set (ps_depends_on st)" by auto
  moreover have "set (ps_depends_on st) \<subseteq> set (plan_ids p)"
    using facts st(1) unfolding structure_ok_def depends_ok_def by blast
  ultimately show ?thesis by blast
qed

text \<open>The steps behind a snapshot that reports unresolved pending work.\<close>

lemma stuck_needs_approval:
  assumes "graph_validate p = Inr g" "validate s = None" "run_status s = R_RUNNING"
      and "\<forall>k \<in> set (plan_ids p). map_of (steps s) k \<noteq> None"
      and "\<forall>k \<in> set (topological_order g). \<not> must_block g s k"
      and "has_unresolved_pending (build_snapshot p g s n)"
  shows "\<exists>k \<in> set (plan_ids p). status_is s k (\<lambda>x. x = S_WAITING_FOR_APPROVAL)"
proof (rule ccontr)
  assume none: "\<not> ?thesis"
  note facts = graph_validate_Inr [OF assms(1)]
  have pending: "filter (\<lambda>k. status_is s k (\<lambda>x. x = S_PENDING)) (topological_order g) \<noteq> []"
      and idle: "filter (\<lambda>k. status_is s k (\<lambda>x. x = S_RUNNING)) (topological_order g) = []"
      and unready: "filter (step_ready g s) (topological_order g) = []"
    using assms(6) ready_ids [OF assms(1,3)] by (auto simp: build_snapshot_def Let_def)
  have order: "set (topological_order g) = set (plan_ids p)" using facts by blast
  have "\<not> status_is s k (\<lambda>x. x = S_PENDING)" if "k \<in> set (plan_ids p)" for k
  proof (rule plan_dag.dependency_induct [OF assms(1) _ that])
    fix k
    assume k: "k \<in> set (plan_ids p)" and deps: "\<forall>d \<in> set (dependencies_of g k). \<not> status_is s d (\<lambda>x. x = S_PENDING)"
    show "\<not> status_is s k (\<lambda>x. x = S_PENDING)"
    proof
      assume pend: "status_is s k (\<lambda>x. x = S_PENDING)"
      then have "k \<notin> active_step_ids s"
        using valid_active_iff [OF assms(2), of k] by (auto simp: status_is_def split: option.splits)
      moreover have "status_is s d (\<lambda>x. x = S_SUCCEEDED)" if "d \<in> set (dependencies_of g k)" for d
      proof -
        have dk: "d \<in> set (plan_ids p)" using dependency_known [OF assms(1) k that] .
        then obtain st where st: "map_of (steps s) d = Some st" using assms(4) by blast
        have "\<not> must_block g s k" using assms(5) order k by blast
        with pend that have "\<not> status_is s d blocking_status"
          by (auto simp: must_block_def list_ex_iff)
        moreover have "\<not> status_is s d (\<lambda>x. x = S_RUNNING)" "\<not> status_is s d (\<lambda>x. x = S_WAITING_FOR_APPROVAL)"
          using idle none order dk by (auto simp: filter_empty_conv)
        ultimately show ?thesis
          using st deps that by (cases "step_status st") (auto simp: status_is_def blocking_status_def)
      qed
      ultimately have "step_ready g s k" using pend by (simp add: step_ready_def list_all_iff)
      with unready order k show False by (auto simp: filter_empty_conv)
    qed
  qed
  with pending order show False by (auto simp: filter_empty_conv)
qed

lemma evaluate_Inr:
  assumes "evaluate w p n now = (Inr snap, w')"
  shows "\<exists>g. graph_validate p = Inr g \<and> validate (w_state w) = None \<and>
     (\<forall>k \<in> set (plan_ids p). map_of (steps (w_state w)) k \<noteq> None) \<and>
     propagate_blocked g (w_state w) (effective_time now (w_state w)) = (None, w_state w') \<and>
     snap = build_snapshot p g (w_state w') n"
  using assms
  by (auto simp: evaluate_def plan_state_alignment_def guard_simps
      split: option.splits sum.splits prod.splits if_splits)

section \<open>Claims succeed when the clock of the Run is sound\<close>

text \<open>No step was created after the last update; events keep this, and so does a monotone clock.\<close>

definition clock_ok :: "agent_state \<Rightarrow> bool" where
  "clock_ok s \<longleftrightarrow> (\<forall>k st. map_of (steps s) k = Some st \<longrightarrow>
     instant (step_created_at st) \<le> instant (updated_at s) \<and>
     (\<forall>b. step_started_at st = Some b \<longrightarrow> instant b \<le> instant (updated_at s)))"

lemma effective_time_facts:
  "is_utc t \<Longrightarrow> validate s = None \<Longrightarrow> is_utc (effective_time t s)"
  "instant (updated_at s) \<le> instant (effective_time t s)"
  by (simp_all add: effective_time_def valid_iff run_ok_def)

lemma step_effect_started:
  "step_started_at (step_event_effect st e target) =
     (if se_type e = SE_STARTED then Some (se_occurred_at e) else step_started_at st)"
  by (simp add: step_event_effect_def Let_def)

lemma clock_ok_event:
  assumes "clock_ok s" "step_event_enabled s e st target"
  shows "clock_ok (step_event_result s e st target)"
proof -
  note en = assms(2) [unfolded step_event_enabled_def]
  have now: "updated_at (step_event_result s e st target) = se_occurred_at e"
    by (simp add: step_event_result_def)
  have "instant (step_created_at x) \<le> instant (se_occurred_at e) \<and>
      (\<forall>b. step_started_at x = Some b \<longrightarrow> instant b \<le> instant (se_occurred_at e))"
    if x: "map_of (steps (step_event_result s e st target)) k = Some x" for k x
  proof (cases "k = se_step_id e")
    case True
    with x have "x = step_event_effect st e target" by (simp add: lookup_result)
    with en show ?thesis by (simp add: step_effect_started)
  next
    case False
    with x have "map_of (steps s) k = Some x" by (simp add: lookup_result)
    with assms(1) en show ?thesis by (fastforce simp: clock_ok_def)
  qed
  then show ?thesis by (simp add: clock_ok_def now)
qed

lemma blocked_event_built:
  assumes "\<not> blank k" "is_utc t"
  shows "step_event_check (blocked_event k t) = None"
proof -
  have "safe_error_code ''DEPENDENCY_NOT_SUCCESSFUL''" "\<not> blank ''DEPENDENCY_NOT_SUCCESSFUL''"
    by (simp_all add: safe_error_code_def error_code_char_def is_alnum_ascii_def blank_def is_space_def)
  moreover have "validate_error_message (Some blocked_message) = None"
    by code_simp
  ultimately show ?thesis
    using assms by (simp add: step_event_check_def blocked_event_def validate_utc_datetime_def validate_error_code_def)
qed

lemma start_event_built: "\<not> blank k \<Longrightarrow> is_utc t \<Longrightarrow> step_event_check (start_event k t) = None"
  by (simp add: step_event_check_def start_event_def validate_utc_datetime_def validate_error_message_def)

lemma apply_built_enabled:
  assumes "validate s = None" "step_event_check e = None" "step_event_enabled s e st target"
  shows "apply_built s e = (None, step_event_result s e st target)"
  using step_event_accept [OF assms] assms(2) by (simp add: apply_built_def)

lemma pending_enabled:
  assumes "validate s = None" "run_status s = R_RUNNING" "clock_ok s"
      and "map_of (steps s) (se_step_id e) = Some st" "step_status st = S_PENDING"
      and "step_transition S_PENDING (se_type e) = Some target" "instant (updated_at s) \<le> instant (se_occurred_at e)"
  shows "step_event_enabled s e st target"
proof -
  have "step_started_at st = None"
    using valid_step(2) [OF assms(1,4)] assms(5) by (simp add: step_valid_iff)
  moreover have "instant (step_created_at st) \<le> instant (updated_at s)"
    using assms(3,4) unfolding clock_ok_def by blast
  ultimately show ?thesis using assms(2,4-7) by (simp add: step_event_enabled_def)
qed

text \<open>What a run of scheduler events keeps.\<close>

definition sched_inv :: "agent_state \<Rightarrow> string set \<Rightarrow> bool" where
  "sched_inv s V \<longleftrightarrow> validate s = None \<and> run_status s = R_RUNNING \<and> clock_ok s \<and>
     V \<subseteq> dom (map_of (steps s)) \<and> (\<forall>k \<in> V. \<not> blank k)"

lemma pending_event_step:
  assumes "sched_inv s V" "k \<in> V" "status_is s k (\<lambda>x. x = S_PENDING)" "is_utc t"
      and "e = blocked_event k (effective_time t s) \<and> target = S_BLOCKED \<or>
           e = start_event k (effective_time t s) \<and> target = S_RUNNING"
  shows "\<exists>s' st. apply_built s e = (None, s') \<and> s' = step_event_result s e st target \<and> sched_inv s' V"
proof -
  obtain st where st: "map_of (steps s) k = Some st" "step_status st = S_PENDING"
    using assms(3) by (auto simp: status_is_def split: option.splits)
  have inv: "validate s = None" "run_status s = R_RUNNING" "clock_ok s" "\<not> blank k"
    using assms(1,2) by (auto simp: sched_inv_def)
  have built: "step_event_check e = None"
    using assms(5) blocked_event_built [OF inv(4)] start_event_built [OF inv(4)]
      effective_time_facts(1) [OF assms(4) inv(1)] by auto
  have id: "se_step_id e = k" "se_occurred_at e = effective_time t s"
    using assms(5) by (auto simp: blocked_event_def start_event_def)
  have tr: "step_transition S_PENDING (se_type e) = Some target"
    using assms(5) by (auto simp: blocked_event_def start_event_def)
  have en: "step_event_enabled s e st target"
    using st inv(1-3) id effective_time_facts(2) [of s t] tr by (intro pending_enabled) simp_all
  have "run_status (step_event_result s e st target) = R_RUNNING"
    using inv by (simp add: step_event_result_def)
  moreover have "dom (map_of (steps (step_event_result s e st target))) = dom (map_of (steps s))"
    using st id by (auto simp: lookup_result)
  ultimately have "sched_inv (step_event_result s e st target) V"
    using assms(1) step_event_result_valid [OF inv(1) built en] clock_ok_event [OF inv(3) en]
    by (simp add: sched_inv_def)
  with apply_built_enabled [OF inv(1) built en] show ?thesis by blast
qed

lemma propagate_pass_total:
  "sched_inv s V \<Longrightarrow> set ks \<subseteq> V \<Longrightarrow> is_utc t \<Longrightarrow>
   \<exists>s' c. propagate_pass g t ks s = (None, s', c) \<and> sched_inv s' V"
proof (induction ks arbitrary: s)
  case (Cons k ks)
  have k: "k \<in> V" "map_of (steps s) k \<noteq> None" using Cons.prems by (auto simp: sched_inv_def)
  show ?case
  proof (cases "must_block g s k")
    case True
    then have "status_is s k (\<lambda>x. x = S_PENDING)" by (simp add: must_block_def)
    with pending_event_step [OF Cons.prems(1) k(1) _ Cons.prems(3), of "blocked_event k (effective_time t s)" S_BLOCKED]
    obtain s1 where s1: "apply_built s (blocked_event k (effective_time t s)) = (None, s1)" "sched_inv s1 V" by blast
    obtain s' c where "propagate_pass g t ks s1 = (None, s', c)" "sched_inv s' V"
      using Cons.IH [OF s1(2)] Cons.prems by auto
    with True k s1 show ?thesis by auto
  next
    case False
    with k Cons show ?thesis by auto
  qed
qed auto

lemma propagate_loop_total:
  "sched_inv s V \<Longrightarrow> set (topological_order g) \<subseteq> V \<Longrightarrow> is_utc t \<Longrightarrow>
   \<exists>s'. propagate_loop g t s = (None, s') \<and> sched_inv s' V"
proof (induction g t s rule: propagate_loop.induct)
  case (1 g t s)
  obtain s1 c where pass: "propagate_pass g t (topological_order g) s = (None, s1, c)" "sched_inv s1 V"
    using propagate_pass_total [OF 1(2,3,4)] by blast
  show ?case
  proof (cases c)
    case True
    with pass 1(1) [OF pass(1) [symmetric] refl refl True] 1(3,4) show ?thesis
      by (simp add: propagate_loop.simps [of g t s])
  next
    case False
    with pass show ?thesis by (simp add: propagate_loop.simps [of g t s])
  qed
qed

lemma claim_loop_total:
  assumes "sched_inv s V" "is_utc t" "ps_step_id ` set sts \<subseteq> V" "distinct (map ps_step_id sts)"
      and "\<forall>st \<in> set sts. status_is s (ps_step_id st) (\<lambda>x. x = S_PENDING)"
  shows "\<exists>cl' s'. claim_loop p t sts cl s = (AllClaimed cl', s')"
  using assms
proof (induction sts arbitrary: cl s)
  case (Cons st sts)
  let ?k = "ps_step_id st" and ?t = "effective_time t s"
  obtain s1 x where s1: "apply_built s (start_event ?k ?t) = (None, s1)"
      "s1 = step_event_result s (start_event ?k ?t) x S_RUNNING" "sched_inv s1 V"
    using pending_event_step [of s V ?k t "start_event ?k ?t" S_RUNNING] Cons.prems by auto
  have upd: "status_is s1 k P = (if k = ?k then P S_RUNNING else status_is s k P)" for k P
    using s1(2) by (simp add: status_is_update start_event_def)
  have run: "status_is s1 ?k (\<lambda>x. x = S_RUNNING)" using upd by simp
  then have act: "?k \<in> active_step_ids s1"
    using valid_active_iff [of s1 ?k] s1(3)
    by (auto simp: sched_inv_def status_is_def split: option.splits)
  have "\<forall>y \<in> set sts. status_is s1 (ps_step_id y) (\<lambda>x. x = S_PENDING)"
    using upd Cons.prems(4,5) by (metis distinct.simps(2) image_eqI list.set_intros(2) list.simps(9) set_map)
  then obtain cl' s' where "claim_loop p t sts (cl @ [mk_claim p st s1 ?t]) s1 = (AllClaimed cl', s')"
    using Cons.IH [OF s1(3)] Cons.prems by (metis distinct.simps(2) image_insert insert_subset list.set(2) list.simps(9))
  with s1(1) run act show ?case by (simp add: Let_def)
qed simp

lemma register_missing_registered:
  "\<forall>st \<in> set sts. map_of (steps s) (ps_step_id st) \<noteq> None \<Longrightarrow> register_missing clock i sts s = (None, s)"
  by (induction sts arbitrary: i) auto

lemma plan_ids_not_blank: "graph_validate p = Inr g \<Longrightarrow> k \<in> set (plan_ids p) \<Longrightarrow> \<not> blank k"
  using graph_validate_Inr [of p g]
  by (auto simp: structure_ok_def plan_validate_iff plan_step_check_def split: if_splits)

definition plan_prepared :: "world \<Rightarrow> plan \<Rightarrow> bool" where
  "plan_prepared w p \<longleftrightarrow> validate (w_state w) = None \<and> run_status (w_state w) = R_RUNNING \<and>
     clock_ok (w_state w) \<and> validate_binding w p = None \<and>
     (\<forall>st \<in> set (plan_steps p). \<exists>x. map_of (steps (w_state w)) (ps_step_id st) = Some x \<and>
        step_name x = ps_title st)"

definition ready_to_claim :: "world \<Rightarrow> plan \<Rightarrow> bool" where
  "ready_to_claim w p \<longleftrightarrow> plan_prepared w p \<and>
     gate_state (w_gate w) = OPEN \<and> 0 \<le> claim_in_progress (w_gate w)"

lemma plan_prepared_gate [simp]: "plan_prepared (w\<lparr>w_gate := g\<rparr>) p = plan_prepared w p"
  by (simp add: plan_prepared_def validate_binding_def split: option.split)

lemma prepare_locked_ready:
  assumes "graph_validate p = Inr g" "plan_prepared w p"
  shows "prepare_locked w p clock = (Inr g, w\<lparr>w_binding := Some (binding_value p (w_state w))\<rparr>)"
proof -
  have "first_some (name_conflict (w_state w)) (plan_steps p) = None"
    using assms(2) by (auto simp: guard_simps plan_prepared_def name_conflict_def split: option.splits)
  moreover have "register_missing clock 0 (plan_steps p) (w_state w) = (None, w_state w)"
    using assms(2) by (intro register_missing_registered) (auto simp: plan_prepared_def)
  ultimately show ?thesis
    using assms by (simp add: prepare_locked_def plan_prepared_def)
qed

lemma claim_ready_total:
  assumes "graph_validate p = Inr g" "ready_to_claim w p" "w_ledger w = None" "is_utc occurred" "0 < n"
  shows "\<exists>claims w' s. claim_ready w p n occurred clock rid env env' = (Inr claims, w') \<and>
    propagate_blocked g (w_state w) (effective_time occurred (w_state w)) = (None, s) \<and>
    map claim_step_id claims = take (nat (max 0 (n - int (length (running_steps p s)))))
      (filter (step_ready g s) (topological_order g))"
proof -
  let ?t = "effective_time occurred (w_state w)" and ?V = "set (plan_ids p)"
  have inv: "validate (w_state w) = None" "run_status (w_state w) = R_RUNNING"
    using assms(2) by (auto simp: ready_to_claim_def plan_prepared_def)
  have "sched_inv (w_state w) ?V"
    using assms(2) plan_ids_not_blank [OF assms(1)] by (auto simp: sched_inv_def ready_to_claim_def plan_prepared_def)
  moreover have order: "set (topological_order g) = ?V" "distinct (topological_order g)"
    using plan_dag.order_all [OF assms(1)] by auto
  moreover have utc: "is_utc ?t" using effective_time_facts(1) [OF assms(4) inv(1)] .
  ultimately obtain s where s: "propagate_loop g ?t (w_state w) = (None, s)" "sched_inv s ?V"
    using propagate_loop_total [of "w_state w" ?V g ?t] by auto
  let ?m = "nat (max 0 (n - int (length (running_steps p s))))"
  let ?sts = "take ?m (compute_ready_steps p g s)"
  have ids: "map ps_step_id ?sts = take ?m (filter (step_ready g s) (topological_order g))"
    using ready_ids [OF assms(1)] s(2) by (metis take_map sched_inv_def)
  have dist: "distinct (map ps_step_id ?sts)" unfolding ids using order(2) by simp
  have ready: "step_ready g s (ps_step_id x) \<and> ps_step_id x \<in> ?V" if "x \<in> set ?sts" for x
  proof -
    have "ps_step_id x \<in> set (map ps_step_id ?sts)" using that by simp
    then have "ps_step_id x \<in> set (filter (step_ready g s) (topological_order g))"
      unfolding ids by (rule in_set_takeD)
    then show ?thesis using order(1) by simp
  qed
  then have pre: "first_some
             (\<lambda>st. if \<not> status_is s (ps_step_id st) (\<lambda>x. x = S_PENDING) \<or>
                      ps_step_id st \<in> active_step_ids s
                   then Some (ClaimFailed (ps_step_id st) (current_state_of s (ps_step_id st)))
                   else None) ?sts = None"
    by (simp add: first_some_None_iff step_ready_def)
  have "ps_step_id ` set ?sts \<subseteq> ?V" "\<forall>st \<in> set ?sts. status_is s (ps_step_id st) (\<lambda>x. x = S_PENDING)"
    using ready by (auto simp: step_ready_def)
  then obtain claims s' where cl: "claim_loop p ?t ?sts [] s = (AllClaimed claims, s')"
    using claim_loop_total [OF s(2) utc _ dist] by blast
  have claim_ids: "map claim_step_id claims = map ps_step_id ?sts"
    using claim_loop_AllClaimed [OF cl dist] by auto
  have blk: "propagate_blocked g (w_state w) ?t = (None, s)"
    using s(1) inv(2) by (simp add: propagate_blocked_def)
  let ?g1 = "(w_gate w)\<lparr>claim_in_progress := claim_in_progress (w_gate w) + 1\<rparr>"
  have enter: "enter_claim (w_gate w) = (Inr True, ?g1)"
    using assms(2) by (simp add: enter_claim_def ready_to_claim_def)
  have prep: "prepare_locked (w\<lparr>w_gate := ?g1\<rparr>) p clock =
      (Inr g, w\<lparr>w_gate := ?g1, w_binding := Some (binding_value p (w_state w))\<rparr>)"
    using prepare_locked_ready [OF assms(1), of "w\<lparr>w_gate := ?g1\<rparr>" clock] assms(2)
    by (simp add: ready_to_claim_def)
  have "claim_ready_entered (w\<lparr>w_gate := ?g1\<rparr>) p n occurred clock rid env env' =
      (Inr claims, w\<lparr>w_gate := ?g1, w_binding := Some (binding_value p (w_state w)), w_state := s'\<rparr>)"
    using prep blk pre cl assms(3)
    by (simp add: claim_ready_entered_def Let_def settle_def)
  then have "\<exists>w'. claim_ready w p n occurred clock rid env env' = (Inr claims, w')"
    using enter assms(2,4,5)
    by (simp add: claim_ready_def validate_parallelism_def scheduler_validate_utc_def exit_claim_def ready_to_claim_def)
  then show ?thesis using blk claim_ids ids by auto
qed

lemma evaluate_total:
  assumes "graph_validate p = Inr g" "plan_prepared w p" "is_utc now" "0 < n"
  shows "\<exists>s. evaluate w p n now = (Inr (build_snapshot p g s n), w\<lparr>w_state := s\<rparr>) \<and>
           propagate_loop g (effective_time now (w_state w)) (w_state w) = (None, s)"
proof -
  have inv: "validate (w_state w) = None" "run_status (w_state w) = R_RUNNING"
    using assms(2) by (auto simp: plan_prepared_def)
  have "sched_inv (w_state w) (set (plan_ids p))"
    using assms(2) plan_ids_not_blank [OF assms(1)] by (auto simp: sched_inv_def plan_prepared_def)
  then obtain s where s: "propagate_loop g (effective_time now (w_state w)) (w_state w) = (None, s)"
    using propagate_loop_total [of "w_state w" "set (plan_ids p)" g "effective_time now (w_state w)"]
      plan_dag.order_all [OF assms(1)] effective_time_facts(1) [OF assms(3) inv(1)] by auto
  have "plan_state_alignment w p = None"
    using assms(2)
    by (auto simp: plan_state_alignment_def guard_simps plan_prepared_def name_conflict_def split: option.splits)
  with s assms(1,4) inv(2) show ?thesis
    by (simp add: evaluate_def validate_parallelism_def propagate_blocked_def)
qed

section \<open>Settlement of the step budget\<close>

lemma step_start_usage_ok [simp]: "usage_ok (step_start_usage n)"
  by (simp add: usage_ok_iff step_start_usage_def)

lemma delete_update_fresh:
  "k \<notin> fst ` set d \<Longrightarrow> AList.delete k (AList.update k v d) = d"
  by (induction d) (auto simp: AList.delete_eq filter_id_conv)

text \<open>\<open>started_by\<close>: the steps a call of \<^verbatim>\<open>claim_ready\<close> reports as started.\<close>

definition started_by :: "scheduler_error + step_claim list \<Rightarrow> nat" where
  "started_by out =
     (case out of
        Inr claims \<Rightarrow> length claims
      | Inl (PartialClaim ids k cur) \<Rightarrow> length ids
      | Inl _ \<Rightarrow> 0)"

definition charged :: "ledger \<Rightarrow> ledger \<Rightarrow> nat \<Rightarrow> bool" where
  "charged l l' n \<longleftrightarrow> budget l' = budget l \<and> reservations l' = reservations l \<and> envelopes l' = envelopes l \<and>
     delegated l' = delegated l \<and>
     (\<forall>d. amount (committed l') d = amount (committed l) d + (if d = step_starts then int n else 0))"

lemma settle_charged:
  assumes "ledger_ok l" "reserve l (step_start_usage m) ty None None rid env = (Inr r, l1)"
      and "rid \<notin> fst ` set (reservations l)" "rid \<notin> fst ` set (delegated l)" "n \<le> m"
  shows "\<exists>l'. settle (Some l1) (Some r) failed n env' = (None, Some l') \<and> charged l l' n"
proof -
  note res = reserve_root [OF assms(1,2)]
  have l1: "l1 = l\<lparr>reservations := AList.update rid r (reservations l)\<rparr>" "reservation_id r = rid"
    using res by auto
  have restored: "l1\<lparr>reservations := AList.delete rid (reservations l1)\<rparr> = l"
    using l1 assms(3) by (simp add: delete_update_fresh)
  have free: "map_of (delegated l) rid = None" using assms(4) by (simp add: map_of_eq_None_iff)
  obtain snap where snap: "snapshot_locked l env' = Inr snap"
      "\<And>d. amount (committed l) d + amount (sn_reserved snap) d = charge l d"
    using snapshot_ok [OF assms(1)] by blast
  show ?thesis
  proof (cases "failed \<and> n = 0")
    case True
    have "release l1 r env' = (Inr snap, l)"
      using l1 restored free snap(1) assms(4) by (simp add: release_def Let_def delete_absent)
    with True show ?thesis by (simp add: settle_def charged_def)
  next
    case False
    have fits: "\<not> amount (committed l) d + amount (sn_reserved snap) d + amount (step_start_usage n) d > b"
      if "limit_of (budget l) d = Some b" for d b
    proof -
      have "charge l d + amount (step_start_usage m) d \<le> b" using res that by blast
      moreover have "amount (step_start_usage n) d \<le> amount (step_start_usage m) d"
        using assms(5) by (simp add: step_start_usage_def)
      ultimately show ?thesis using snap(2) [of d] by linarith
    qed
    then have pass: "first_some (\<lambda>d. case limit_of (budget l1) d of
                                 None \<Rightarrow> None
                               | Some m \<Rightarrow>
                                   if amount (committed l1) d + amount (sn_reserved snap) d
                                        + amount (step_start_usage n) d > m
                                   then Some d else None) dimensions = None"
      using l1 by (auto simp: first_some_None_iff split: option.splits)
    obtain c where c: "usage_plus (committed l) (step_start_usage n) = Inr c" "usage_ok c"
        "\<forall>d. amount c d = amount (committed l) d + amount (step_start_usage n) d"
      using usage_plus_ok [OF committed_ok [OF assms(1)] step_start_usage_ok] by blast
    have "ledger_ok (l\<lparr>committed := c\<rparr>)" using assms(1) c(2) by (simp add: ledger_ok_def)
    then obtain snap2 where snap2: "snapshot_locked (l\<lparr>committed := c\<rparr>) env' = Inr snap2"
      using snapshot_ok by blast
    have "commit l1 r (Some (step_start_usage n)) env' = (Inr snap2, l\<lparr>committed := c\<rparr>)"
    proof -
      have fields: "map_of (reservations l1) rid = Some r" "map_of (delegated l1) rid = None"
          "usage_plus (committed l1) (step_start_usage n) = Inr c"
        using l1 free c(1) by simp_all
      show ?thesis unfolding commit_def Let_def l1(2) restored option.case
        using fields snap(1) pass snap2 by simp
    qed
    with False c(3) show ?thesis
      by (auto simp: settle_def charged_def step_start_usage_def)
  qed
qed

lemma prepare_locked_gate: "prepare_locked w p clock = (out, w') \<Longrightarrow> w_gate w' = w_gate w"
  by (auto simp: prepare_locked_def split: sum.splits option.splits prod.splits)

lemma claim_ready_entered_gate:
  "claim_ready_entered w p n occurred clock rid env env' = (out, w') \<Longrightarrow> w_gate w' = w_gate w"
  by (auto simp: claim_ready_entered_def Let_def dest!: prepare_locked_gate
      split: sum.splits option.splits prod.splits claim_outcome.splits)

lemma claim_loop_count:
  "claim_loop p t sts cl s = (out, s') \<Longrightarrow>
   (case out of AllClaimed c \<Rightarrow> length c | StartRaised c k x \<Rightarrow> length c | StartIneffective c k x \<Rightarrow> length c)
     \<le> length cl + length sts"
proof (induction sts arbitrary: cl s)
  case (Cons st sts)
  then show ?case
    by (fastforce simp: Let_def split: option.splits prod.splits if_splits)
qed auto

lemma charged_zero [simp]: "charged l l 0"
  by (simp add: charged_def)

lemma register_missing_error:
  "register_missing clock i sts s = (Some e, s') \<Longrightarrow> \<exists>m. e = MachineRaised m"
  by (induction clock i sts s rule: register_missing.induct) (auto split: if_splits prod.splits option.splits)

lemma prepare_locked_error: "prepare_locked w p clock = (Inl e, w') \<Longrightarrow> started_by (Inl e) = 0"
  by (auto simp: prepare_locked_def validate_binding_def name_conflict_def or_raise_def started_by_def
      dest!: register_missing_error first_some_SomeD
      split: sum.splits option.splits prod.splits if_splits)

lemma propagate_pass_error: "propagate_pass g t ks s = (Some e, s', c) \<Longrightarrow> started_by (Inl e) = 0"
proof (induction g t ks s arbitrary: c rule: propagate_pass.induct)
  case (2 g t k ks s)
  then show ?case
    by (auto simp: apply_built_def started_by_def split: if_splits prod.splits option.splits)
qed simp

lemma propagate_loop_error: "propagate_loop g t s = (Some e, s') \<Longrightarrow> started_by (Inl e) = 0"
proof (induction g t s rule: propagate_loop.induct)
  case (1 g t s)
  obtain x s1 c where pass: "propagate_pass g t (topological_order g) s = (x, s1, c)"
    by (cases "propagate_pass g t (topological_order g) s") auto
  show ?case
  proof (cases x)
    case None
    with 1 pass show ?thesis by (cases c) (auto simp: propagate_loop.simps [of g t s])
  next
    case (Some y)
    with 1(2) pass propagate_pass_error show ?thesis by (simp add: propagate_loop.simps [of g t s])
  qed
qed

lemma propagate_blocked_error: "propagate_blocked g s t = (Some e, s') \<Longrightarrow> started_by (Inl e) = 0"
  by (auto simp: propagate_blocked_def propagate_loop_error split: if_splits)

lemma candidates_pending:
  assumes "graph_validate p = Inr g" "run_status s = R_RUNNING"
  shows "first_some
             (\<lambda>st. if \<not> status_is s (ps_step_id st) (\<lambda>x. x = S_PENDING) \<or>
                      ps_step_id st \<in> active_step_ids s
                   then Some (ClaimFailed (ps_step_id st) (current_state_of s (ps_step_id st)))
                   else None) (take m (compute_ready_steps p g s)) = None"
proof -
  have "step_ready g s (ps_step_id x)" if "x \<in> set (take m (compute_ready_steps p g s))" for x
  proof -
    have "ps_step_id x \<in> set (map ps_step_id (compute_ready_steps p g s))"
      using that by (auto dest: in_set_takeD)
    then show ?thesis unfolding ready_ids [OF assms] by simp
  qed
  then show ?thesis by (simp add: first_some_None_iff step_ready_def)
qed

lemma claim_ready_entered_charged:
  assumes "w_ledger w = Some l" "ledger_ok l" "rid \<notin> fst ` set (reservations l)" "rid \<notin> fst ` set (delegated l)"
      and "claim_ready_entered w p n occurred clock rid env env' = (out, w')"
  shows "\<exists>l'. w_ledger w' = Some l' \<and> charged l l' (started_by out)"
proof -
  obtain o1 w1 where prep: "prepare_locked w p clock = (o1, w1)" by fastforce
  then have lw1: "w_ledger w1 = Some l"
    using assms(1) by (auto simp: prepare_locked_def split: sum.splits option.splits prod.splits)
  show ?thesis
  proof (cases o1)
    case (Inl e)
    with assms(5) prep have "out = Inl e" "w' = w1" by (simp_all add: claim_ready_entered_def)
    with lw1 prepare_locked_error prep Inl show ?thesis by simp
  next
    case (Inr g)
    note ok = prepare_locked_Inr [OF prep [unfolded Inr]]
    let ?t = "effective_time occurred (w_state w1)"
    obtain e s where blk: "propagate_blocked g (w_state w1) ?t = (e, s)" by fastforce
    show ?thesis
    proof (cases e)
      case (Some x)
      with assms(5) prep Inr blk have "out = Inl x" "w' = w1\<lparr>w_state := s\<rparr>"
        by (simp_all add: claim_ready_entered_def Let_def)
      with lw1 propagate_blocked_error blk Some show ?thesis by simp
    next
      case None
      have "run_status (w_state w1) = R_RUNNING" using register_missing_facts ok by blast
      then have live: "run_status s = R_RUNNING"
        using propagate_running_status blk None by metis
      let ?cand = "take (nat (max 0 (n - int (length (running_steps p s))))) (compute_ready_steps p g s)"
      note pre = candidates_pending [OF conjunct1 [OF ok] live, of "nat (max 0 (n - int (length (running_steps p s))))"]
      obtain o2 l1 where res: "reserve l (step_start_usage (length ?cand)) ''step_start'' None None rid env = (o2, l1)"
        by fastforce
      show ?thesis
      proof (cases o2)
        case (Inl x)
        with assms(5) prep \<open>o1 = Inr g\<close> blk None lw1 res
        have "out = Inl (BudgetRaised x) \<and> w_ledger w' = Some l1"
          by (auto simp: claim_ready_entered_def Let_def)
        moreover have "l1 = l" using reserve_Inl res Inl by blast
        ultimately show ?thesis by (simp add: started_by_def)
      next
        case (Inr r)
        obtain co s' where cl: "claim_loop p ?t ?cand [] s = (co, s')" by fastforce
        let ?n = "case co of AllClaimed c \<Rightarrow> length c | StartRaised c k x \<Rightarrow> length c | StartIneffective c k x \<Rightarrow> length c"
        have "?n \<le> length ?cand" using claim_loop_count [OF cl] by simp
        then have settled: "\<exists>l'. settle (Some l1) (Some r) failed ?n env' = (None, Some l') \<and> charged l l' ?n" for failed
          using settle_charged [OF assms(2) res [unfolded Inr] assms(3,4)] by blast
        note unfold = assms(5) prep \<open>o1 = Inr g\<close> blk None lw1 res Inr pre cl
        show ?thesis
        proof (cases co)
          case (AllClaimed c)
          with settled [of False] unfold show ?thesis
            by (auto simp: claim_ready_entered_def Let_def started_by_def)
        next
          case (StartRaised c k x)
          with settled [of True] unfold show ?thesis
            by (auto simp: claim_ready_entered_def Let_def started_by_def)
        next
          case (StartIneffective c k x)
          with settled [of True] unfold show ?thesis
            by (auto simp: claim_ready_entered_def Let_def started_by_def)
        qed
      qed
    qed
  qed
qed

section \<open>Properties\<close>


text \<open>
  C26. Bounded parallelism: after \<^verbatim>\<open>claim_ready\<close> at most \<open>max_parallelism\<close> steps of
  the plan are RUNNING, unless more were RUNNING before the call, in which case none is added.
\<close>

theorem claim_ready_bounded:
  assumes "claim_ready w p n occurred clock rid env env' = (Inr claims, w')" "distinct (plan_ids p)"
  shows "int (length (running_steps p (w_state w'))) \<le> max n (int (length (running_steps p (w_state w))))"
proof (cases "claims = [] \<and> w_state w' = w_state w")
  case False
  then obtain gate w2 where entered: "claim_ready_entered (w\<lparr>w_gate := gate\<rparr>) p n occurred clock rid env env' = (Inr claims, w2)"
      and w2: "w_state w' = w_state w2"
    using claim_ready_Inr [OF assms(1)] by blast
  obtain g w1 s where st: "prepare_locked (w\<lparr>w_gate := gate\<rparr>) p clock = (Inr g, w1)"
      "propagate_blocked g (w_state w1) (effective_time occurred (w_state w1)) = (None, s)"
      "claim_loop p (effective_time occurred (w_state w1))
         (take (nat (max 0 (n - int (length (running_steps p s))))) (compute_ready_steps p g s)) [] s
       = (AllClaimed claims, w_state w2)"
    using claim_ready_entered_Inr [OF entered] by blast
  note facts = claim_facts [OF st]
  have same: "running_steps p s = running_steps p (w_state w)"
    using facts by (auto simp: running_steps_def running_set_def set_eq_iff intro!: filter_cong)
  have "running_set (w_state w') \<inter> set (plan_ids p) \<subseteq>
      (running_set s \<inter> set (plan_ids p)) \<union> set (map claim_step_id claims)"
    using facts w2 by auto
  then have "card (running_set (w_state w') \<inter> set (plan_ids p)) \<le>
      card ((running_set s \<inter> set (plan_ids p)) \<union> set (map claim_step_id claims))"
    by (intro card_mono) auto
  also have "\<dots> \<le> card (running_set s \<inter> set (plan_ids p)) + card (set (map claim_step_id claims))"
    by (rule card_Un_le)
  also have "card (set (map claim_step_id claims)) \<le> length claims"
    using card_length [of "map claim_step_id claims"] by simp
  finally have "length (running_steps p (w_state w')) \<le> length (running_steps p s) + length claims"
    using running_length [OF assms(2)] by simp
  moreover have "int (length claims) \<le> max 0 (n - int (length (running_steps p s)))"
    using facts by (metis int_nat_eq max.cobounded1 of_nat_mono)
  ultimately show ?thesis unfolding same by (auto simp: max_def split: if_splits)
qed simp

text \<open>
  C28. Blocking is complete: when \<^verbatim>\<open>evaluate\<close> returns on a RUNNING Run, no step of the plan
  is still PENDING while one of its dependencies has FAILED, or is CANCELLED, BLOCKED or SKIPPED,
  and the steps that were RUNNING are untouched.
\<close>

theorem evaluate_blocks_all:
  assumes "evaluate w p n now = (Inr snap, w')" "run_status (w_state w) = R_RUNNING"
  shows "running_set (w_state w') = running_set (w_state w) \<and>
    (\<forall>st \<in> set (plan_steps p). status_is (w_state w') (ps_step_id st) (\<lambda>x. x = S_PENDING) \<longrightarrow>
       (\<forall>d \<in> set (ps_depends_on st). \<not> status_is (w_state w') d blocking_status))"
proof -
  obtain g where g: "graph_validate p = Inr g"
      "propagate_blocked g (w_state w) (effective_time now (w_state w)) = (None, w_state w')"
    using evaluate_Inr [OF assms(1)] by blast
  note blk = propagate_blocked_facts [OF g(2) assms(2)] and facts = graph_validate_Inr [OF g(1)]
  have "\<not> status_is (w_state w') d blocking_status"
    if "st \<in> set (plan_steps p)" "status_is (w_state w') (ps_step_id st) (\<lambda>x. x = S_PENDING)"
      "d \<in> set (ps_depends_on st)" for st d
  proof -
    have "ps_step_id st \<in> set (topological_order g)" "dependencies_of g (ps_step_id st) = ps_depends_on st"
      using facts that(1) by auto
    with blk that show ?thesis by (auto simp: must_block_def list_ex_iff)
  qed
  with blk show ?thesis by blast
qed



text \<open>
  C29. The step budget is settled on every path: whatever \<^verbatim>\<open>claim_ready\<close> does (all claims,
  a partial claim, a failed claim, a refused reservation, a closed gate), no reservation stays
  behind, and the ledger is charged exactly one \<^verbatim>\<open>step_starts\<close> per step reported as
  started and nothing else.
\<close>

theorem claim_ready_settles_budget:
  assumes "w_ledger w = Some l" "ledger_ok l" "rid \<notin> fst ` set (reservations l)"
      and "rid \<notin> fst ` set (delegated l)" "0 \<le> claim_in_progress (w_gate w)"
      and "claim_ready w p n occurred clock rid env env' = (out, w')"
  shows "\<exists>l'. w_ledger w' = Some l' \<and> charged l l' (started_by out)"
proof (cases "or_raise (validate_parallelism n) (scheduler_validate_utc occurred)")
  case (Some e)
  then have "started_by (Inl e) = 0"
    by (auto simp: validate_parallelism_def scheduler_validate_utc_def started_by_def split: if_splits)
  with Some assms(1,6) show ?thesis by (auto simp: claim_ready_def)
next
  case None
  obtain o1 g1 where enter: "enter_claim (w_gate w) = (o1, g1)" by fastforce
  show ?thesis
  proof (cases "o1 = Inr True")
    case True
    obtain o2 w2 where ent: "claim_ready_entered (w\<lparr>w_gate := g1\<rparr>) p n occurred clock rid env env' = (o2, w2)"
      by fastforce
    obtain l' where l': "w_ledger w2 = Some l'" "charged l l' (started_by o2)"
      using claim_ready_entered_charged [OF _ assms(2-4) ent] assms(1) by auto
    have "claim_in_progress g1 = claim_in_progress (w_gate w) + 1"
      using enter True by (auto simp: enter_claim_def split: if_splits)
    moreover have "w_gate w2 = g1" using claim_ready_entered_gate [OF ent] by simp
    ultimately have "fst (exit_claim (w_gate w2)) = None"
      using assms(5) by (simp add: exit_claim_def)
    with assms(6) None enter True ent l' show ?thesis
      by (auto simp: claim_ready_def split: prod.splits option.splits)
  next
    case False
    with assms(1,6) None enter show ?thesis
      by (cases o1) (auto simp: claim_ready_def started_by_def)
  qed
qed

section \<open>Witnesses\<close>

definition chain :: plan where
  "chain = sample_plan [sample_step ''a'' [], sample_step ''b'' [''a'']]"

definition chain_graph :: plan_graph where
  "chain_graph = \<lparr>pg_plan_id = ''p'', pg_plan_version = 1, pg_step_ids = [''a'', ''b''],
     topological_order = [''a'', ''b''], root_step_ids = [''a''], leaf_step_ids = [''b''],
     dependencies = [(''a'', []), (''b'', [''a''])], dependents = [(''a'', [''b'']), (''b'', [])]\<rparr>"

definition chain_world :: "step_status \<Rightarrow> py_datetime option \<Rightarrow> py_datetime option \<Rightarrow> string option \<Rightarrow> world" where
  "chain_world a begun ended code =
     \<lparr>w_binding = None, w_gate = new_gate,
      w_state =
        \<lparr>run_id = ''r'', schema_version = 1, run_status = R_RUNNING, created_at = DT (Some 0) 0,
         updated_at = DT (Some 0) 5,
         steps = [(''a'', (new_step ''a'' ''a'' (DT (Some 0) 1))
                     \<lparr>step_status := a, step_started_at := begun, step_ended_at := ended,
                      step_error_code := code\<rparr>),
                  (''b'', new_step ''b'' ''b'' (DT (Some 0) 1))],
         active_step_ids = (if active_status a then {''a''} else {}), run_stop_reason = None,
         final_output = None, run_error_code = None, run_error_message = None\<rparr>,
      w_ledger = None\<rparr>"

abbreviation fresh_world :: world where
  "fresh_world \<equiv> chain_world S_PENDING None None None"

lemma chain_graph_built: "graph_validate chain = Inr chain_graph"
  by (simp add: graph_eval chain_def chain_graph_def)

lemma chain_ids: "distinct (plan_ids chain)"
  by (simp add: chain_def sample_plan_def sample_step_def)

lemmas world_eval = plan_prepared_def chain_world_def chain_def sample_plan_def sample_step_def
  new_step_def validate_def step_validate_def clock_ok_def validate_binding_def

lemma fresh_ready: "ready_to_claim fresh_world chain"
  by (simp add: ready_to_claim_def new_gate_def world_eval)

lemma failed_prepared:
  "plan_prepared (chain_world S_FAILED (Some (DT (Some 0) 2)) (Some (DT (Some 0) 3)) (Some ''E'')) chain"
  by (simp add: world_eval)

lemma waiting_prepared: "plan_prepared (chain_world S_WAITING_FOR_APPROVAL (Some (DT (Some 0) 2)) None None) chain"
  by (simp add: world_eval)

lemma running_status_chain: "run_status (w_state (chain_world a b c d)) = R_RUNNING"
  by (simp add: chain_world_def)

lemma fresh_loop: "propagate_loop chain_graph t (w_state fresh_world) = (None, w_state fresh_world)"
  by (simp add: propagate_loop.simps chain_graph_def must_block_def status_is_def chain_world_def
      new_step_def dependencies_of_def get_ids_def blocking_status_def)

lemma waiting_loop:
  "propagate_loop chain_graph t (w_state (chain_world S_WAITING_FOR_APPROVAL b None None)) =
     (None, w_state (chain_world S_WAITING_FOR_APPROVAL b None None))"
  by (simp add: propagate_loop.simps chain_graph_def must_block_def status_is_def chain_world_def
      new_step_def dependencies_of_def get_ids_def blocking_status_def)

lemma fresh_no_ledger: "w_ledger fresh_world = None"
  by (simp add: chain_world_def)

lemma fresh_claims:
  "\<exists>claims w'. claim_ready fresh_world chain 2 (DT (Some 0) 6) clock rid env env' = (Inr claims, w') \<and>
     map claim_step_id claims = [''a'']"
proof -
  obtain claims w' s where out: "claim_ready fresh_world chain 2 (DT (Some 0) 6) clock rid env env' = (Inr claims, w')"
      "propagate_blocked chain_graph (w_state fresh_world) (effective_time (DT (Some 0) 6) (w_state fresh_world)) = (None, s)"
      "map claim_step_id claims = take (nat (max 0 (2 - int (length (running_steps chain s)))))
         (filter (step_ready chain_graph s) (topological_order chain_graph))"
    using claim_ready_total [where n = 2 and occurred = "DT (Some 0) 6" and clock = clock and rid = rid
        and env = env and env' = env', OF chain_graph_built fresh_ready fresh_no_ledger is_utc_DT zero_less_numeral]
    by blast
  have s: "s = w_state fresh_world"
    using out(2) fresh_loop running_status_chain by (simp add: propagate_blocked_def)
  have "map claim_step_id claims = [''a'']"
    unfolding out(3) s
    by (simp add: running_steps_def chain_def sample_plan_def sample_step_def status_is_def chain_world_def
        new_step_def step_ready_def chain_graph_def dependencies_of_def get_ids_def)
  with out(1) show ?thesis by (intro exI conjI)
qed

definition sample_clock :: "nat \<Rightarrow> py_datetime \<times> py_datetime" where
  "sample_clock i = (DT (Some 0) 6, DT (Some 0) 6)"


theorem claim_ready_bounded_witness:
  "\<exists>claims w'. claim_ready fresh_world chain 2 (DT (Some 0) 6) sample_clock ''i'' sample_reading sample_reading
     = (Inr claims, w') \<and>
     int (length (running_steps chain (w_state w'))) \<le>
       max 2 (int (length (running_steps chain (w_state fresh_world))))"
proof -
  obtain claims w' where out: "claim_ready fresh_world chain 2 (DT (Some 0) 6) sample_clock ''i'' sample_reading sample_reading
      = (Inr claims, w')"
    using fresh_claims [of sample_clock "''i''" sample_reading sample_reading] by (elim exE conjE)
  with claim_ready_bounded [OF out chain_ids] show ?thesis by blast
qed


theorem claim_ready_settles_budget_witness:
  "\<exists>l'. w_ledger (snd (claim_ready (fresh_world\<lparr>w_ledger := Some (new_ledger sample_budget 0)\<rparr>) chain 2
       (DT (Some 0) 6) sample_clock ''i'' sample_reading sample_reading)) = Some l' \<and>
     reservations l' = []"
proof -
  let ?w = "fresh_world\<lparr>w_ledger := Some (new_ledger sample_budget 0)\<rparr>"
  obtain out w' where out: "claim_ready ?w chain 2 (DT (Some 0) 6) sample_clock ''i'' sample_reading sample_reading = (out, w')"
    by fastforce
  have "0 \<le> claim_in_progress (w_gate ?w)" by (simp add: chain_world_def new_gate_def)
  with claim_ready_settles_budget [OF _ ledger_ok_new _ _ _ out, of sample_budget 0] out
  show ?thesis by (auto simp: new_ledger_def charged_def)
qed

theorem evaluate_blocks_all_witness:
  "\<exists>snap w'. evaluate (chain_world S_FAILED (Some (DT (Some 0) 2)) (Some (DT (Some 0) 3)) (Some ''E''))
      chain 1 (DT (Some 0) 6) = (Inr snap, w') \<and>
     (\<forall>st \<in> set (plan_steps chain). status_is (w_state w') (ps_step_id st) (\<lambda>x. x = S_PENDING) \<longrightarrow>
       (\<forall>d \<in> set (ps_depends_on st). \<not> status_is (w_state w') d blocking_status))"
proof -
  obtain snap w' where out: "evaluate (chain_world S_FAILED (Some (DT (Some 0) 2)) (Some (DT (Some 0) 3)) (Some ''E''))
      chain 1 (DT (Some 0) 6) = (Inr snap, w')"
    using evaluate_total [OF chain_graph_built failed_prepared is_utc_DT zero_less_one] by blast
  with evaluate_blocks_all [OF out running_status_chain] show ?thesis by blast
qed


end
