(* ===== verification/Circuit_Breaker.thy ===== *)
theory Circuit_Breaker
  imports Runtime_Prelude Complex_Main
begin

text \<open>
  \<^verbatim>\<open>core/runtime/circuit_breaker.py\<close>: the circuit breaker of a model provider, its permits
  and the shared registry. Each body under a lock is one step; clock readings and permit ids
  (\<^verbatim>\<open>uuid4().hex\<close>) are arguments. A permit carries its own completion flag, which is set
  before the breaker is told the outcome.
\<close>

section \<open>Model\<close>

datatype circuit_state = CB_CLOSED | CB_OPEN | CB_HALF_OPEN

datatype circuit_error =
    ConfigInvalid | BreakerKeyEmpty | CircuitOpen string | PermitCompleted | PermitUnknown

record breaker_config =
  failure_threshold :: int
  recovery_timeout_seconds :: real
  half_open_max_calls :: int
  count_rate_limited :: bool

definition config_check :: "breaker_config \<Rightarrow> circuit_error option" where
  "config_check c = first_error
     [(failure_threshold c \<le> 0, ConfigInvalid),
      (recovery_timeout_seconds c \<le> 0, ConfigInvalid),
      (half_open_max_calls c \<le> 0, ConfigInvalid)]"

record breaker =
  breaker_key :: string
  br_config :: breaker_config
  br_state :: circuit_state
  consecutive_failures :: int
  opened_at :: "real option"
  active_permits :: "(string, bool) dict"

record breaker_snapshot =
  bs_key :: string
  bs_state :: circuit_state
  bs_failures :: int
  bs_half_open_active :: int
  bs_threshold :: int
  bs_recovery :: real
  bs_half_open_max :: int

record permit =
  permit_id :: string
  half_open_probe :: bool
  permit_completed :: bool

datatype permit_outcome = Success | Failure | Indeterminate | Abandon

definition new_breaker :: "string \<Rightarrow> breaker_config \<Rightarrow> circuit_error + breaker" where
  "new_breaker key c =
     (if blank key then Inl BreakerKeyEmpty
      else Inr \<lparr>breaker_key = key, br_config = c, br_state = CB_CLOSED, consecutive_failures = 0,
                opened_at = None, active_permits = []\<rparr>)"

definition transition_if_recovered :: "breaker \<Rightarrow> real \<Rightarrow> breaker" where
  "transition_if_recovered b now =
     (if br_state b = CB_OPEN \<and>
         (case opened_at b of None \<Rightarrow> False | Some t \<Rightarrow> recovery_timeout_seconds (br_config b) \<le> now - t)
      then b\<lparr>br_state := CB_HALF_OPEN\<rparr> else b)"

definition active_probes :: "breaker \<Rightarrow> int" where
  "active_probes b = dict_sum (\<lambda>probe. if probe then 1 else 0) (active_permits b)"

definition acquire_permission ::
  "breaker \<Rightarrow> string \<Rightarrow> real \<Rightarrow> (circuit_error + permit) \<times> breaker" where
  "acquire_permission b pid now =
     (let b1 = transition_if_recovered b now;
          probe = (br_state b1 = CB_HALF_OPEN)
      in if br_state b1 = CB_OPEN then (Inl (CircuitOpen (breaker_key b)), b1)
         else if probe \<and> half_open_max_calls (br_config b1) \<le> active_probes b1
         then (Inl (CircuitOpen (breaker_key b)), b1)
         else (Inr \<lparr>permit_id = pid, half_open_probe = probe, permit_completed = False\<rparr>,
               b1\<lparr>active_permits := AList.update pid probe (active_permits b1)\<rparr>))"

definition open_now :: "breaker \<Rightarrow> real \<Rightarrow> breaker" where
  "open_now b now = b\<lparr>br_state := CB_OPEN, opened_at := Some now\<rparr>"

text \<open>\<^verbatim>\<open>_complete_permit\<close>\<close>

definition complete_permit ::
  "breaker \<Rightarrow> string \<Rightarrow> permit_outcome \<Rightarrow> real \<Rightarrow> circuit_error option \<times> breaker" where
  "complete_permit b pid outcome now =
     (case map_of (active_permits b) pid of
        None \<Rightarrow> (Some PermitUnknown, b)
      | Some probe \<Rightarrow>
          (let b1 = b\<lparr>active_permits := AList.delete pid (active_permits b)\<rparr>;
               half = (probe \<or> br_state b1 = CB_HALF_OPEN)
           in (None,
               case outcome of
                 Abandon \<Rightarrow> b1
               | Indeterminate \<Rightarrow> (if half then open_now b1 now else b1)
               | Success \<Rightarrow> b1\<lparr>br_state := CB_CLOSED, consecutive_failures := 0, opened_at := None\<rparr>
               | Failure \<Rightarrow>
                   (if half then open_now b1 now
                    else let b2 = b1\<lparr>consecutive_failures := consecutive_failures b1 + 1\<rparr>
                         in if failure_threshold (br_config b2) \<le> consecutive_failures b2
                            then open_now b2 now else b2))))"

text \<open>\<^verbatim>\<open>CircuitPermit._complete\<close>, behind \<^verbatim>\<open>record_success\<close>, \<^verbatim>\<open>record_failure\<close>,
  \<^verbatim>\<open>record_indeterminate\<close> and \<^verbatim>\<open>abandon\<close>\<close>

definition permit_complete ::
  "permit \<Rightarrow> breaker \<Rightarrow> permit_outcome \<Rightarrow> real \<Rightarrow> circuit_error option \<times> permit \<times> breaker" where
  "permit_complete p b outcome now =
     (if permit_completed p then (Some PermitCompleted, p, b)
      else case complete_permit b (permit_id p) outcome now of
             (err, b') \<Rightarrow> (err, p\<lparr>permit_completed := True\<rparr>, b'))"

definition breaker_view :: "breaker \<Rightarrow> breaker_snapshot" where
  "breaker_view b =
     \<lparr>bs_key = breaker_key b, bs_state = br_state b, bs_failures = consecutive_failures b,
      bs_half_open_active = active_probes b, bs_threshold = failure_threshold (br_config b),
      bs_recovery = recovery_timeout_seconds (br_config b),
      bs_half_open_max = half_open_max_calls (br_config b)\<rparr>"

definition take_breaker_snapshot :: "breaker \<Rightarrow> real \<Rightarrow> breaker_snapshot \<times> breaker" where
  "take_breaker_snapshot b now = (let b1 = transition_if_recovered b now in (breaker_view b1, b1))"

section \<open>Registry\<close>

record breaker_registry =
  rg_config :: breaker_config
  rg_breakers :: "(string, breaker) dict"

definition registry_get ::
  "breaker_registry \<Rightarrow> string \<Rightarrow> (circuit_error + breaker) \<times> breaker_registry" where
  "registry_get r key =
     (case map_of (rg_breakers r) key of
        Some b \<Rightarrow> (Inr b, r)
      | None \<Rightarrow>
          (case new_breaker key (rg_config r) of
             Inl e \<Rightarrow> (Inl e, r)
           | Inr b \<Rightarrow> (Inr b, r\<lparr>rg_breakers := AList.update key b (rg_breakers r)\<rparr>)))"

text \<open>\<^verbatim>\<open>snapshots\<close>: one snapshot per distinct key, in order; a fresh clock reading each.\<close>

fun registry_snapshots ::
  "breaker_registry \<Rightarrow> string list \<Rightarrow> (nat \<Rightarrow> real) \<Rightarrow> nat
     \<Rightarrow> (circuit_error + (string, breaker_snapshot) dict) \<times> breaker_registry" where
  "registry_snapshots r [] clk i = (Inr [], r)"
| "registry_snapshots r (k # ks) clk i =
     (case registry_get r k of
        (Inl e, r1) \<Rightarrow> (Inl e, r1)
      | (Inr b, r1) \<Rightarrow>
          (let (sn, b1) = take_breaker_snapshot b (clk i);
               r2 = r1\<lparr>rg_breakers := AList.update k b1 (rg_breakers r1)\<rparr>
           in case registry_snapshots r2 ks clk (Suc i) of
                (Inl e, r3) \<Rightarrow> (Inl e, r3)
              | (Inr rest, r3) \<Rightarrow> (Inr ((k, sn) # rest), r3)))"

definition registry_snapshot_keys ::
  "breaker_registry \<Rightarrow> string list \<Rightarrow> (nat \<Rightarrow> real)
     \<Rightarrow> (circuit_error + (string, breaker_snapshot) dict) \<times> breaker_registry" where
  "registry_snapshot_keys r keys clk = registry_snapshots r (rev (remdups (rev keys))) clk 0"

definition registry_snapshot_all ::
  "breaker_registry \<Rightarrow> (nat \<Rightarrow> real) \<Rightarrow> breaker_snapshot list \<times> breaker_registry" where
  "registry_snapshot_all r clk =
     (let bs = map (\<lambda>(i, k, b). (k, take_breaker_snapshot b (clk i))) (enumerate 0 (rg_breakers r))
      in (map (fst \<circ> snd) bs, r\<lparr>rg_breakers := map (\<lambda>(k, sn, b). (k, b)) bs\<rparr>))"

section \<open>Invariant\<close>

definition breaker_ok :: "breaker \<Rightarrow> bool" where
  "breaker_ok b \<longleftrightarrow> config_check (br_config b) = None \<and> wf_dict (active_permits b) \<and>
     0 \<le> consecutive_failures b \<and>
     (br_state b = CB_CLOSED \<longrightarrow> opened_at b = None \<and>
        consecutive_failures b < failure_threshold (br_config b)) \<and>
     (br_state b \<noteq> CB_CLOSED \<longrightarrow> opened_at b \<noteq> None) \<and>
     active_probes b \<le> half_open_max_calls (br_config b)"

lemma config_check_iff:
  "config_check c = None \<longleftrightarrow>
     0 < failure_threshold c \<and> 0 < recovery_timeout_seconds c \<and> 0 < half_open_max_calls c"
  by (auto simp: config_check_def)

lemma transition_ok: "breaker_ok b \<Longrightarrow> breaker_ok (transition_if_recovered b now)"
  by (auto simp: breaker_ok_def transition_if_recovered_def active_probes_def)

lemma transition_fields [simp]:
  "active_permits (transition_if_recovered b now) = active_permits b"
  "br_config (transition_if_recovered b now) = br_config b"
  "consecutive_failures (transition_if_recovered b now) = consecutive_failures b"
  "opened_at (transition_if_recovered b now) = opened_at b"
  "breaker_key (transition_if_recovered b now) = breaker_key b"
  by (simp_all add: transition_if_recovered_def)

lemma probes_delete:
  "wf_dict d \<Longrightarrow> dict_sum (\<lambda>probe. if probe then 1 else 0) (AList.delete k d) \<le>
     dict_sum (\<lambda>probe. if probe then (1::int) else 0) d"
  by (auto simp: dict_sum_delete split: option.splits)

lemma acquire_ok:
  assumes "breaker_ok b" "map_of (active_permits b) pid = None"
  shows "breaker_ok (snd (acquire_permission b pid now))"
proof -
  let ?b = "transition_if_recovered b now"
  have ok: "breaker_ok ?b" using transition_ok [OF assms(1)] .
  then show ?thesis
    using assms(2)
    by (auto simp: acquire_permission_def Let_def breaker_ok_def active_probes_def dict_sum_update)
qed

lemma complete_ok:
  assumes "breaker_ok b"
  shows "breaker_ok (snd (complete_permit b pid outcome now))"
proof (cases "map_of (active_permits b) pid")
  case None
  with assms show ?thesis by (simp add: complete_permit_def)
next
  case (Some probe)
  let ?b = "b\<lparr>active_permits := AList.delete pid (active_permits b)\<rparr>"
  have ok: "breaker_ok ?b"
    using assms probes_delete [of "active_permits b" pid]
    by (auto simp: breaker_ok_def active_probes_def)
  then show ?thesis
    using Some
    by (cases outcome)
       (auto simp: complete_permit_def Let_def breaker_ok_def active_probes_def open_now_def
          config_check_iff)
qed

section \<open>Histories\<close>

text \<open>
  A breaker with the permits it has handed out. The source draws permit ids with
  \<^verbatim>\<open>uuid4\<close>, so an id that is already in use is not drawn again.
\<close>

record breaker_system =
  sys_breaker :: breaker
  sys_permits :: "permit list"

datatype breaker_call = Acquire string real | Complete nat permit_outcome real | TakeSnapshot real

fun breaker_post :: "breaker_system \<Rightarrow> breaker_call \<Rightarrow> breaker_system" where
  "breaker_post s (Acquire pid now) =
     (if pid \<in> permit_id ` set (sys_permits s) then s
      else case acquire_permission (sys_breaker s) pid now of
        (Inl e, b) \<Rightarrow> s\<lparr>sys_breaker := b\<rparr>
      | (Inr p, b) \<Rightarrow> \<lparr>sys_breaker = b, sys_permits = sys_permits s @ [p]\<rparr>)"
| "breaker_post s (Complete i outcome now) =
     (if i < length (sys_permits s) then
        (case permit_complete (sys_permits s ! i) (sys_breaker s) outcome now of
           (err, p, b) \<Rightarrow> \<lparr>sys_breaker = b, sys_permits = (sys_permits s)[i := p]\<rparr>)
      else s)"
| "breaker_post s (TakeSnapshot now) =
     s\<lparr>sys_breaker := snd (take_breaker_snapshot (sys_breaker s) now)\<rparr>"

text \<open>The open permits of the breaker are exactly the uncompleted permits handed out.\<close>

definition outstanding :: "permit list \<Rightarrow> (string, bool) dict" where
  "outstanding ps = map (\<lambda>p. (permit_id p, half_open_probe p)) (filter (\<lambda>p. \<not> permit_completed p) ps)"

definition system_ok :: "breaker_system \<Rightarrow> bool" where
  "system_ok s \<longleftrightarrow> breaker_ok (sys_breaker s) \<and> distinct (map permit_id (sys_permits s)) \<and>
     active_permits (sys_breaker s) = outstanding (sys_permits s)"

lemma outstanding_keys: "fst ` set (outstanding ps) \<subseteq> permit_id ` set ps"
  by (auto simp: outstanding_def)

lemma outstanding_Cons [simp]:
  "outstanding (p # ps) =
     (if permit_completed p then outstanding ps
      else (permit_id p, half_open_probe p) # outstanding ps)"
  by (simp add: outstanding_def)

lemma outstanding_complete:
  assumes "distinct (map permit_id ps)" "i < length ps" "p = (ps ! i)\<lparr>permit_completed := True\<rparr>"
  shows "outstanding (ps[i := p]) = AList.delete (permit_id (ps ! i)) (outstanding ps)"
  using assms
proof (induction ps arbitrary: i)
  case (Cons q ps)
  show ?case
  proof (cases i)
    case 0
    have "permit_id q \<notin> fst ` set (outstanding ps)" using outstanding_keys [of ps] Cons.prems(1) by auto
    with 0 Cons.prems(3) show ?thesis by (simp add: delete_absent)
  next
    case (Suc j)
    with Cons.prems have "permit_id q \<noteq> permit_id (ps ! j)" by (auto simp: image_iff)
    with Suc Cons show ?thesis by simp
  qed
qed simp

lemma outstanding_lookup:
  assumes "distinct (map permit_id ps)" "i < length ps" "\<not> permit_completed (ps ! i)"
  shows "map_of (outstanding ps) (permit_id (ps ! i)) = Some (half_open_probe (ps ! i))"
proof -
  have "distinct (map fst (outstanding ps))"
    using assms(1) by (simp add: outstanding_def comp_def distinct_map_filter)
  moreover have "(permit_id (ps ! i), half_open_probe (ps ! i)) \<in> set (outstanding ps)"
    using assms(2,3) by (auto simp: outstanding_def intro!: image_eqI [of _ _ "ps ! i"])
  ultimately show ?thesis by (rule map_of_is_SomeI)
qed

lemma complete_permits:
  "active_permits (snd (complete_permit b pid outcome now)) = AList.delete pid (active_permits b)"
proof (cases "map_of (active_permits b) pid")
  case None
  then have "pid \<notin> fst ` set (active_permits b)" by (simp add: map_of_eq_None_iff)
  with None show ?thesis by (simp add: complete_permit_def delete_absent)
next
  case (Some probe)
  then show ?thesis by (cases outcome) (simp_all add: complete_permit_def Let_def open_now_def)
qed

lemma system_acquire:
  assumes "system_ok s" "pid \<notin> permit_id ` set (sys_permits s)"
  shows "system_ok (breaker_post s (Acquire pid now))"
proof -
  have fresh: "pid \<notin> fst ` set (active_permits (sys_breaker s))"
    using assms outstanding_keys [of "sys_permits s"] by (auto simp: system_ok_def)
  then have ok: "breaker_ok (snd (acquire_permission (sys_breaker s) pid now))"
    using assms(1) acquire_ok by (simp add: system_ok_def map_of_eq_None_iff)
  show ?thesis
  proof (cases "acquire_permission (sys_breaker s) pid now")
    case (Pair r b)
    show ?thesis
    proof (cases r)
      case (Inl e)
      with Pair have "active_permits b = active_permits (sys_breaker s)"
        by (auto simp: acquire_permission_def Let_def split: if_splits)
      with Inl Pair ok assms show ?thesis by (simp add: system_ok_def)
    next
      case (Inr p)
      with Pair fresh have "permit_id p = pid" "\<not> permit_completed p"
        "active_permits b = active_permits (sys_breaker s) @ [(pid, half_open_probe p)]"
        by (auto simp: acquire_permission_def Let_def update_new split: if_splits)
      with Inr Pair ok assms show ?thesis by (simp add: system_ok_def outstanding_def)
    qed
  qed
qed

lemma permit_complete_done:
  "\<not> permit_completed p \<Longrightarrow> permit_complete p b outcome now =
     (fst (complete_permit b (permit_id p) outcome now), p\<lparr>permit_completed := True\<rparr>,
      snd (complete_permit b (permit_id p) outcome now))"
  by (simp add: permit_complete_def split: prod.split)

lemma permit_ids_completed:
  "i < length ps \<Longrightarrow> map permit_id (ps[i := (ps ! i)\<lparr>permit_completed := True\<rparr>]) = map permit_id ps"
  by (simp add: map_update list_update_same_conv)

lemma system_complete:
  assumes "system_ok s"
  shows "system_ok (breaker_post s (Complete i outcome now))"
proof (cases "i < length (sys_permits s) \<and> \<not> permit_completed (sys_permits s ! i)")
  case True
  then show ?thesis
    using assms
    by (simp add: permit_complete_done system_ok_def complete_ok permit_ids_completed
        complete_permits outstanding_complete)
next
  case False
  with assms show ?thesis by (cases s) (auto simp: permit_complete_def)
qed

lemma system_snapshot: "system_ok s \<Longrightarrow> system_ok (breaker_post s (TakeSnapshot now))"
  by (simp add: system_ok_def take_breaker_snapshot_def Let_def transition_ok)

lemma system_post: "system_ok s \<Longrightarrow> system_ok (breaker_post s c)"
proof (cases c)
  case (Acquire pid now)
  assume "system_ok s"
  with Acquire show ?thesis
    using system_acquire [of s pid now] by (cases "pid \<in> permit_id ` set (sys_permits s)") auto
qed (simp_all only: system_complete system_snapshot)

interpretation breaker_machine: invariant_machine breaker_post system_ok
  by unfold_locales (rule system_post)

lemma new_breaker_system_ok:
  assumes "config_check c = None" "new_breaker key c = Inr b"
  shows "system_ok \<lparr>sys_breaker = b, sys_permits = []\<rparr>"
  using assms
  by (auto simp: new_breaker_def system_ok_def breaker_ok_def outstanding_def active_probes_def
      config_check_iff split: if_splits)

lemma post_config:
  "br_config (sys_breaker (breaker_post s e)) = br_config (sys_breaker s)"
proof (cases e)
  case (Acquire pid now)
  then show ?thesis by (auto simp: acquire_permission_def Let_def)
next
  case (Complete i outcome now)
  then show ?thesis
    by (cases outcome)
       (auto simp: permit_complete_def complete_permit_def Let_def open_now_def split: option.split)
qed (simp add: take_breaker_snapshot_def Let_def)

lemma history_config:
  "br_config (sys_breaker (after_all breaker_post s es)) = br_config (sys_breaker s)"
  by (induction es arbitrary: s) (simp_all add: post_config)

lemma probes_length:
  "dict_sum (\<lambda>probe. if probe then 1 else 0) (outstanding ps) =
     int (length (filter (\<lambda>p. half_open_probe p \<and> \<not> permit_completed p) ps))"
  by (induction ps) (auto simp: outstanding_def)

text \<open>
  C33. Whatever calls are made on a fresh breaker, at most \<open>half_open_max_calls\<close> of the probe
  permits it handed out are uncompleted, a breaker that is not CLOSED knows when it opened, and a
  CLOSED one has fewer consecutive failures than the threshold.\<close>

theorem breaker_history_sound:
  assumes "config_check c = None" "new_breaker key c = Inr b"
    and "s = after_all breaker_post \<lparr>sys_breaker = b, sys_permits = []\<rparr> calls"
  shows "int (length (filter (\<lambda>p. half_open_probe p \<and> \<not> permit_completed p) (sys_permits s)))
           \<le> half_open_max_calls c \<and>
         (br_state (sys_breaker s) \<noteq> CB_CLOSED \<longleftrightarrow> opened_at (sys_breaker s) \<noteq> None) \<and>
         (br_state (sys_breaker s) = CB_CLOSED \<longrightarrow>
           consecutive_failures (sys_breaker s) < failure_threshold c)"
proof -
  have "br_config b = c" using assms(2) by (auto simp: new_breaker_def split: if_splits)
  then have cfg: "br_config (sys_breaker s) = c" by (simp add: assms(3) history_config)
  have ok: "system_ok s"
    unfolding assms(3) by (rule breaker_machine.history_inv) (rule new_breaker_system_ok [OF assms(1,2)])
  then have "active_probes (sys_breaker s) =
      int (length (filter (\<lambda>p. half_open_probe p \<and> \<not> permit_completed p) (sys_permits s)))"
    by (simp add: system_ok_def active_probes_def probes_length)
  with ok cfg show ?thesis by (auto simp: system_ok_def breaker_ok_def)
qed

theorem breaker_history_sound_witness:
  "let c = \<lparr>failure_threshold = 1, recovery_timeout_seconds = 5, half_open_max_calls = 1,
            count_rate_limited = True\<rparr>;
       b = \<lparr>breaker_key = ''m'', br_config = c, br_state = CB_CLOSED, consecutive_failures = 0,
            opened_at = None, active_permits = []\<rparr>;
       s = after_all breaker_post \<lparr>sys_breaker = b, sys_permits = []\<rparr>
             [Acquire ''a'' 0, Complete 0 Failure 1, Acquire ''b'' 7, Acquire ''c'' 8]
   in br_state (sys_breaker s) = CB_HALF_OPEN \<and> map permit_id (sys_permits s) = [''a'', ''b''] \<and>
      int (length (filter (\<lambda>p. half_open_probe p \<and> \<not> permit_completed p) (sys_permits s))) \<le> 1"
proof -
  define c where "c = \<lparr>failure_threshold = 1, recovery_timeout_seconds = 5, half_open_max_calls = 1,
            count_rate_limited = True\<rparr>"
  define b where "b = \<lparr>breaker_key = ''m'', br_config = c, br_state = CB_CLOSED, consecutive_failures = 0,
            opened_at = None, active_permits = []\<rparr>"
  have "config_check c = None" "new_breaker ''m'' c = Inr b"
    by (simp_all add: c_def b_def config_check_def new_breaker_def blank_def is_space_def)
  note sound = breaker_history_sound [OF this refl,
      of "[Acquire ''a'' 0, Complete 0 Failure 1, Acquire ''b'' 7, Acquire ''c'' 8]"]
  define pa where "pa = \<lparr>permit_id = ''a'', half_open_probe = False, permit_completed = False\<rparr>"
  define pb where "pb = \<lparr>permit_id = ''b'', half_open_probe = True, permit_completed = False\<rparr>"
  note eval = b_def c_def pa_def pb_def Let_def acquire_permission_def transition_if_recovered_def
    permit_complete_def complete_permit_def open_now_def active_probes_def
  define b2 where "b2 = b\<lparr>consecutive_failures := 1, br_state := CB_OPEN, opened_at := Some 1\<rparr>"
  define b3 where "b3 = b2\<lparr>br_state := CB_HALF_OPEN, active_permits := [(''b'', True)]\<rparr>"
  have "breaker_post \<lparr>sys_breaker = b, sys_permits = []\<rparr> (Acquire ''a'' 0) =
      \<lparr>sys_breaker = b\<lparr>active_permits := [(''a'', False)]\<rparr>, sys_permits = [pa]\<rparr>"
    by (simp add: eval)
  moreover have "breaker_post \<lparr>sys_breaker = b\<lparr>active_permits := [(''a'', False)]\<rparr>, sys_permits = [pa]\<rparr>
      (Complete 0 Failure 1) = \<lparr>sys_breaker = b2, sys_permits = [pa\<lparr>permit_completed := True\<rparr>]\<rparr>"
    by (simp add: eval b2_def)
  moreover have "breaker_post \<lparr>sys_breaker = b2, sys_permits = [pa\<lparr>permit_completed := True\<rparr>]\<rparr>
      (Acquire ''b'' 7) = \<lparr>sys_breaker = b3, sys_permits = [pa\<lparr>permit_completed := True\<rparr>, pb]\<rparr>"
    by (simp add: eval b2_def b3_def)
  moreover have "breaker_post \<lparr>sys_breaker = b3, sys_permits = [pa\<lparr>permit_completed := True\<rparr>, pb]\<rparr>
      (Acquire ''c'' 8) = \<lparr>sys_breaker = b3, sys_permits = [pa\<lparr>permit_completed := True\<rparr>, pb]\<rparr>"
    by (simp add: eval b2_def b3_def)
  ultimately have run: "after_all breaker_post \<lparr>sys_breaker = b, sys_permits = []\<rparr>
      [Acquire ''a'' 0, Complete 0 Failure 1, Acquire ''b'' 7, Acquire ''c'' 8] =
      \<lparr>sys_breaker = b3, sys_permits = [pa\<lparr>permit_completed := True\<rparr>, pb]\<rparr>" by simp
  then show ?thesis
    using sound unfolding c_def [symmetric] b_def [symmetric] Let_def run
    by (simp add: b3_def pa_def pb_def c_def)
qed

section \<open>Tripping\<close>

text \<open>The breaker after the given permits have reported failures, at the given times.\<close>

definition report_failures :: "breaker \<Rightarrow> (string \<times> real) list \<Rightarrow> breaker" where
  "report_failures b fs = foldl (\<lambda>b (pid, now). snd (complete_permit b pid Failure now)) b fs"

lemma failure_step:
  assumes "map_of (active_permits b) pid = Some False" "br_state b \<noteq> CB_HALF_OPEN"
  shows "snd (complete_permit b pid Failure now) =
    (let b1 = b\<lparr>active_permits := AList.delete pid (active_permits b),
                consecutive_failures := consecutive_failures b + 1\<rparr>
     in if failure_threshold (br_config b) \<le> consecutive_failures b + 1 then open_now b1 now else b1)"
  using assms by (simp add: complete_permit_def Let_def open_now_def)

lemma report_failures_frame:
  "br_config (report_failures b fs) = br_config b"
  "breaker_key (report_failures b fs) = breaker_key b"
proof -
  have "br_config (snd (complete_permit b pid Failure now)) = br_config b \<and>
        breaker_key (snd (complete_permit b pid Failure now)) = breaker_key b" for b pid now
    by (simp add: complete_permit_def Let_def open_now_def split: option.split)
  then have "br_config (report_failures b fs) = br_config b \<and>
        breaker_key (report_failures b fs) = breaker_key b"
    unfolding report_failures_def by (induction fs arbitrary: b) auto
  then show "br_config (report_failures b fs) = br_config b"
    "breaker_key (report_failures b fs) = breaker_key b" by simp_all
qed

lemma report_failures_probes:
  "wf_dict (active_permits b) \<Longrightarrow> active_probes (report_failures b fs) \<le> active_probes b"
proof (induction fs arbitrary: b)
  case Nil
  then show ?case by (simp add: report_failures_def)
next
  case (Cons f fs)
  let ?b = "snd (complete_permit b (fst f) Failure (snd f))"
  have "active_probes (report_failures ?b fs) \<le> active_probes ?b"
    using Cons by (simp add: complete_permits wf_dict_delete)
  also have "\<dots> \<le> active_probes b"
    using probes_delete [OF Cons.prems] by (simp add: active_probes_def complete_permits)
  finally show ?case by (simp add: report_failures_def case_prod_beta)
qed

lemma report_failures_counts:
  assumes "br_state b \<noteq> CB_HALF_OPEN" "distinct (map fst fs)"
    and "\<And>pid now. (pid, now) \<in> set fs \<Longrightarrow> map_of (active_permits b) pid = Some False"
  shows "br_state (report_failures b fs) \<noteq> CB_HALF_OPEN"
    and "consecutive_failures (report_failures b fs) = consecutive_failures b + int (length fs)"
    and "br_state (report_failures b fs) = CB_OPEN \<longleftrightarrow> br_state b = CB_OPEN \<or>
          fs \<noteq> [] \<and> failure_threshold (br_config b) \<le> consecutive_failures b + int (length fs)"
    and "fs \<noteq> [] \<Longrightarrow> failure_threshold (br_config b) \<le> consecutive_failures b + int (length fs) \<Longrightarrow>
          opened_at (report_failures b fs) = Some (snd (last fs))"
proof -
  have "br_state (report_failures b fs) \<noteq> CB_HALF_OPEN \<and>
    consecutive_failures (report_failures b fs) = consecutive_failures b + int (length fs) \<and>
    (br_state (report_failures b fs) = CB_OPEN \<longleftrightarrow> br_state b = CB_OPEN \<or>
          fs \<noteq> [] \<and> failure_threshold (br_config b) \<le> consecutive_failures b + int (length fs)) \<and>
    (fs \<noteq> [] \<longrightarrow> failure_threshold (br_config b) \<le> consecutive_failures b + int (length fs) \<longrightarrow>
          opened_at (report_failures b fs) = Some (snd (last fs)))"
    using assms
  proof (induction fs arbitrary: b)
    case Nil
    then show ?case by (simp add: report_failures_def)
  next
    case (Cons f fs)
    obtain pid now where f: "f = (pid, now)" by (cases f)
    let ?b = "snd (complete_permit b pid Failure now)"
    have step: "?b = (let b1 = b\<lparr>active_permits := AList.delete pid (active_permits b),
                consecutive_failures := consecutive_failures b + 1\<rparr>
     in if failure_threshold (br_config b) \<le> consecutive_failures b + 1 then open_now b1 now else b1)"
      using Cons.prems f by (intro failure_step) auto
    have "map_of (active_permits ?b) pid' = Some False" if "(pid', t) \<in> set fs" for pid' t
      using that Cons.prems(2) Cons.prems(3) [of pid' t] f by (force simp: complete_permits)
    moreover have "br_state ?b \<noteq> CB_HALF_OPEN"
      using Cons.prems(1) by (simp add: step Let_def open_now_def)
    moreover have "report_failures b (f # fs) = report_failures ?b fs"
      by (simp add: report_failures_def f)
    ultimately show ?case
      using Cons.IH [of ?b] Cons.prems(2)
      by (auto simp: step Let_def open_now_def f report_failures_def split: if_splits)
  qed
  then show "br_state (report_failures b fs) \<noteq> CB_HALF_OPEN"
    "consecutive_failures (report_failures b fs) = consecutive_failures b + int (length fs)"
    "br_state (report_failures b fs) = CB_OPEN \<longleftrightarrow> br_state b = CB_OPEN \<or>
          fs \<noteq> [] \<and> failure_threshold (br_config b) \<le> consecutive_failures b + int (length fs)"
    "fs \<noteq> [] \<Longrightarrow> failure_threshold (br_config b) \<le> consecutive_failures b + int (length fs) \<Longrightarrow>
          opened_at (report_failures b fs) = Some (snd (last fs))"
    by blast+
qed

text \<open>
  C34. Failure reports of permits granted while the breaker was CLOSED trip it exactly when they
  bring the count of consecutive failures to the threshold; from then on every acquisition is
  refused until \<open>recovery_timeout_seconds\<close> have passed since the last of those reports, and the
  first acquisition after that is a probe.\<close>

theorem breaker_trips_and_recovers:
  assumes "br_state b = CB_CLOSED" "breaker_ok b" "fs \<noteq> []" "distinct (map fst fs)"
    and "\<forall>f \<in> set fs. map_of (active_permits b) (fst f) = Some False"
    and "active_probes b < half_open_max_calls (br_config b)"
  shows "if consecutive_failures b + int (length fs) < failure_threshold (br_config b)
         then br_state (report_failures b fs) = CB_CLOSED
         else br_state (report_failures b fs) = CB_OPEN \<and>
           (now < snd (last fs) + recovery_timeout_seconds (br_config b) \<longrightarrow>
              fst (acquire_permission (report_failures b fs) pid now) = Inl (CircuitOpen (breaker_key b))) \<and>
           (snd (last fs) + recovery_timeout_seconds (br_config b) \<le> now \<longrightarrow>
              fst (acquire_permission (report_failures b fs) pid now) =
                Inr \<lparr>permit_id = pid, half_open_probe = True, permit_completed = False\<rparr>)"
proof -
  let ?b = "report_failures b fs"
  have cfg: "br_config ?b = br_config b" "breaker_key ?b = breaker_key b"
    by (simp_all add: report_failures_frame)
  note counts = report_failures_counts [of b fs]
  have act: "map_of (active_permits b) pid = Some False" if "(pid, now) \<in> set fs" for pid now
    using assms(5) that by fastforce
  have half: "br_state ?b \<noteq> CB_HALF_OPEN"
    and op: "br_state ?b = CB_OPEN \<longleftrightarrow> failure_threshold (br_config b) \<le> consecutive_failures b + int (length fs)"
    using counts(1,3) assms(1,3,4) act by auto
  show ?thesis
  proof (cases "consecutive_failures b + int (length fs) < failure_threshold (br_config b)")
    case True
    with half op show ?thesis by (cases "br_state ?b") auto
  next
    case False
    with op have st: "br_state ?b = CB_OPEN" by simp
    have at: "opened_at ?b = Some (snd (last fs))"
      using False counts(4) assms(1,3,4) act by auto
    have "wf_dict (active_permits b)" using assms(2) by (simp add: breaker_ok_def)
    from report_failures_probes [OF this, of fs] assms(6)
    have "active_probes ?b < half_open_max_calls (br_config b)" by simp
    then show ?thesis
      using False st at cfg
      by (simp add: acquire_permission_def transition_if_recovered_def Let_def active_probes_def)
  qed
qed

theorem breaker_trips_and_recovers_witness:
  "let b = \<lparr>breaker_key = ''m'',
            br_config = \<lparr>failure_threshold = 2, recovery_timeout_seconds = 30,
                         half_open_max_calls = 1, count_rate_limited = True\<rparr>,
            br_state = CB_CLOSED, consecutive_failures = 0, opened_at = None,
            active_permits = [(''p'', False), (''q'', False)]\<rparr>
   in br_state (report_failures b [(''p'', 4)]) = CB_CLOSED \<and>
      br_state (report_failures b [(''p'', 4), (''q'', 5)]) = CB_OPEN \<and>
      fst (acquire_permission (report_failures b [(''p'', 4), (''q'', 5)]) ''r'' 34) =
        Inl (CircuitOpen ''m'')"
proof -
  define b where "b = \<lparr>breaker_key = ''m'',
            br_config = \<lparr>failure_threshold = 2, recovery_timeout_seconds = 30,
                         half_open_max_calls = 1, count_rate_limited = True\<rparr>,
            br_state = CB_CLOSED, consecutive_failures = 0, opened_at = None,
            active_permits = [(''p'', False), (''q'', False)]\<rparr>"
  note eval = b_def breaker_ok_def config_check_def active_probes_def
  have one: "br_state (report_failures b [(''p'', 4)]) = CB_CLOSED"
    using breaker_trips_and_recovers [of b "[(''p'', 4)]"] by (simp add: eval)
  have two: "br_state (report_failures b [(''p'', 4), (''q'', 5)]) = CB_OPEN \<and>
      fst (acquire_permission (report_failures b [(''p'', 4), (''q'', 5)]) ''r'' 34) = Inl (CircuitOpen ''m'')"
    using breaker_trips_and_recovers [of b "[(''p'', 4), (''q'', 5)]" 34 "''r''"] by (simp add: eval)
  from one two show ?thesis unfolding Let_def b_def [symmetric] by simp
qed

end
