(* ===== verification/Py_Float.thy ===== *)
theory Py_Float
  imports Complex_Main
begin

text \<open>
  Python's \<^verbatim>\<open>float\<close> where its rounding decides what the program does: the non-negative
  IEEE 754 doubles as a significand and a binary exponent, with the round-to-nearest-even
  product and quotient and the exact \<^verbatim>\<open>math.ceil\<close> and \<^verbatim>\<open>math.floor\<close>.
  Overflow to infinity and subnormal results do not occur for the operands of the source (token
  counts and a ratio near one) and are not represented. All operations compute on integers.
\<close>

datatype py_float = Fl (mant: int) (expo: int)

definition fval :: "py_float \<Rightarrow> real" where
  "fval f = of_int (mant f) * 2 powr of_int (expo f)"

text \<open>\<^verbatim>\<open>int.bit_length\<close> of a non-negative integer.\<close>

function bit_length :: "int \<Rightarrow> nat" where
  "bit_length n = (if n \<le> 0 then 0 else Suc (bit_length (n div 2)))"
  by pat_completeness auto
termination by (relation "measure nat") auto

declare bit_length.simps [simp del]

text \<open>The double nearest to \<open>n * 2 powr e\<close>, ties to the even significand.\<close>

definition round53 :: "int \<Rightarrow> int \<Rightarrow> py_float" where
  "round53 n e =
     (let k = bit_length n - 53; q = n div 2 ^ k; r = n mod 2 ^ k; half = 2 ^ (k - 1)
      in if k = 0 then Fl n e
         else Fl (if r < half \<or> (r = half \<and> even q) then q else q + 1) (e + int k))"

definition float_of_int :: "int \<Rightarrow> py_float" where
  "float_of_int n = round53 n 0"

definition float_mul :: "py_float \<Rightarrow> py_float \<Rightarrow> py_float" where
  "float_mul f g = round53 (mant f * mant g) (expo f + expo g)"

text \<open>
  The quotient is taken with at least 55 bits and a sticky bit for the remainder, which is enough
  to round it correctly.
\<close>

definition float_div :: "py_float \<Rightarrow> py_float \<Rightarrow> py_float" where
  "float_div f g =
     (let s = 55 + bit_length (mant g) - bit_length (mant f);
          num = mant f * 2 ^ s
      in round53 (2 * (num div mant g) + (if num mod mant g = 0 then 0 else 1))
           (expo f - expo g - int s - 1))"

definition float_ceil :: "py_float \<Rightarrow> int" where
  "float_ceil f =
     (if 0 \<le> expo f then mant f * 2 ^ nat (expo f) else - (- mant f div 2 ^ nat (- expo f)))"

definition float_floor :: "py_float \<Rightarrow> int" where
  "float_floor f =
     (if 0 \<le> expo f then mant f * 2 ^ nat (expo f) else mant f div 2 ^ nat (- expo f))"

section \<open>Bit lengths and rounding\<close>

lemma bit_length_0 [simp]: "bit_length 0 = 0"
  by (simp add: bit_length.simps)

lemma bit_length_bounds: "0 < n \<Longrightarrow> 2 ^ (bit_length n - 1) \<le> n \<and> n < 2 ^ bit_length n"
proof (induction n rule: bit_length.induct)
  case (1 n)
  show ?case
  proof (cases "n = 1")
    case True
    then show ?thesis by (simp add: bit_length.simps [of 1])
  next
    case False
    with 1 have IH: "2 ^ (bit_length (n div 2) - 1) \<le> n div 2" "n div 2 < 2 ^ bit_length (n div 2)"
      by auto
    have "bit_length (n div 2) \<noteq> 0" using 1(2) False by (subst bit_length.simps) auto
    then obtain b where b: "bit_length (n div 2) = Suc b" by (cases "bit_length (n div 2)") auto
    have len: "bit_length n = Suc (Suc b)" using 1(2) b by (simp add: bit_length.simps [of n])
    from IH b have "2 ^ b \<le> n div 2" "n div 2 < 2 * 2 ^ b" by simp_all
    then show ?thesis unfolding len by simp linarith
  qed
qed

lemma bit_length_le:
  assumes "0 \<le> n" "n < 2 ^ b"
  shows "bit_length n \<le> b"
proof (rule ccontr)
  assume *: "\<not> bit_length n \<le> b"
  with assms have "0 < n" by (cases "n = 0") auto
  then have "2 ^ (bit_length n - 1) \<le> n" using bit_length_bounds by blast
  moreover have "(2 :: int) ^ b \<le> 2 ^ (bit_length n - 1)"
    by (rule power_increasing) (use * in auto)
  ultimately show False using assms(2) by linarith
qed

lemma fval_nonneg_expo: "0 \<le> expo f \<Longrightarrow> fval f = of_int (mant f * 2 ^ nat (expo f))"
  by (simp add: fval_def powr_realpow flip: powr_realpow)

lemma fval_neg_expo: "expo f < 0 \<Longrightarrow> fval f = of_int (mant f) / of_int (2 ^ nat (- expo f))"
proof -
  assume "expo f < 0"
  then have "(2 :: real) powr of_int (expo f) = inverse (2 ^ nat (- expo f))"
    by (simp add: powr_minus flip: powr_realpow) 
  then show ?thesis by (simp add: fval_def field_simps)
qed

lemma float_floor_correct: "float_floor f = \<lfloor>fval f\<rfloor>"
proof (cases "0 \<le> expo f")
  case True
  then show ?thesis unfolding fval_nonneg_expo [OF True] floor_of_int by (simp add: float_floor_def)
next
  case False
  then show ?thesis by (simp only: fval_neg_expo not_le floor_divide_of_int_eq) (simp add: float_floor_def)
qed

lemma float_ceil_correct: "float_ceil f = \<lceil>fval f\<rceil>"
proof (cases "0 \<le> expo f")
  case True
  then show ?thesis unfolding fval_nonneg_expo [OF True] ceiling_of_int by (simp add: float_ceil_def)
next
  case False
  then have "- fval f = of_int (- mant f) / of_int (2 ^ nat (- expo f))"
    by (simp add: fval_neg_expo)
  then have "\<lfloor>- fval f\<rfloor> = - mant f div 2 ^ nat (- expo f)"
    by (simp only: floor_divide_of_int_eq)
  with False show ?thesis by (simp add: float_ceil_def ceiling_def)
qed

text \<open>Rounding does not fall below a multiple of the unit in the last place.\<close>

lemma round53_ge:
  assumes "0 \<le> c" "c \<le> n" "2 ^ (bit_length n - 53) dvd c"
  shows "of_int c * 2 powr of_int e \<le> fval (round53 n e)"
proof (cases "bit_length n - 53")
  case 0
  then show ?thesis using assms by (simp add: round53_def fval_def mult_right_mono)
next
  case (Suc k')
  let ?k = "bit_length n - 53"
  obtain d where d: "c = 2 ^ ?k * d" using assms(3) by (auto elim: dvdE)
  have "d \<le> n div 2 ^ ?k"
  proof -
    have "d = c div 2 ^ ?k" by (simp add: d)
    also have "\<dots> \<le> n div 2 ^ ?k" using assms(2) by (simp add: zdiv_mono1)
    finally show ?thesis .
  qed
  then have "d \<le> mant (round53 n e)" using Suc by (auto simp: round53_def Let_def)
  moreover have "expo (round53 n e) = e + int ?k" using Suc by (auto simp: round53_def Let_def)
  ultimately have "of_int d * 2 powr of_int (e + int ?k) \<le> fval (round53 n e)"
    by (simp add: fval_def mult_right_mono)
  moreover have "of_int c * 2 powr of_int e = (of_int d * 2 powr of_int (e + int ?k) :: real)"
    by (simp add: d powr_add powr_realpow)
  ultimately show ?thesis by simp
qed

text \<open>A double of at least one: its significand is full and its exponent at least \<open>-52\<close>.\<close>

definition float_ge_1 :: "py_float \<Rightarrow> bool" where
  "float_ge_1 f \<longleftrightarrow> 2 ^ 52 \<le> mant f \<and> mant f < 2 ^ 53 \<and> - 52 \<le> expo f"

lemma ceil_scaled_ge:
  assumes "0 \<le> n" "n < 2 ^ 52" "float_ge_1 f"
  shows "n \<le> float_ceil (float_mul (float_of_int n) f)"
proof -
  have "bit_length n - 53 = 0" using bit_length_le [OF assms(1,2)] by simp
  then have conv: "float_of_int n = Fl n 0" by (simp add: float_of_int_def round53_def)
  have m: "2 ^ 52 \<le> mant f" "mant f < 2 ^ 53" "- 52 \<le> expo f" using assms(3) by (auto simp: float_ge_1_def)
  have "n * mant f < 2 ^ 52 * 2 ^ 53" using assms(1,2) m by (intro mult_strict_mono') auto
  also have "\<dots> = (2 :: int) ^ 105" by simp
  finally have "bit_length (n * mant f) \<le> 105" using assms(1) m(1) by (intro bit_length_le) auto
  then have "(2 :: int) ^ (bit_length (n * mant f) - 53) dvd 2 ^ 52" by (intro le_imp_power_dvd) auto
  then have dvd: "2 ^ (bit_length (n * mant f) - 53) dvd n * 2 ^ 52" by (rule dvd_mult)
  have "n * 2 ^ 52 \<le> n * mant f" using assms(1) m(1) by (intro mult_left_mono) auto
  then have ge: "of_int (n * 2 ^ 52) * 2 powr of_int (expo f) \<le> fval (round53 (n * mant f) (expo f))"
    using assms(1) dvd by (intro round53_ge) auto
  have "(2 :: real) powr - 52 \<le> 2 powr of_int (expo f)" using m(3) by (intro powr_mono) auto
  then have "(1 :: real) \<le> 2 ^ 52 * 2 powr of_int (expo f)"
    by (simp add: powr_minus field_simps powr_numeral)
  then have "of_int n * 1 \<le> of_int n * (2 ^ 52 * 2 powr of_int (expo f) :: real)"
    using assms(1) by (intro mult_left_mono) auto
  with ge have "of_int n \<le> fval (round53 (n * mant f) (expo f))" by simp
  then show ?thesis
    by (simp add: float_ceil_correct float_mul_def conv) linarith
qed

end
