(* ===== verification/Model_Selection.thy ===== *)
theory Model_Selection
  imports Budget Planning Py_Float
begin

text \<open>
  \<^verbatim>\<open>core/runtime/model_selection.py\<close>: the choice of a model profile for a step from the
  capability requirements, the context window, the preference of the user and the budget. The
  window arithmetic goes through Python floats and is modelled with their rounding
  (\<open>Py_Float\<close>). The \<^verbatim>\<open>isinstance\<close> checks hold by typing; every check on values
  is kept. The Chinese reason texts are the bytes of their UTF-8 encoding.
\<close>

section \<open>Profiles, requests and decisions\<close>

datatype model_profile_id = LOCAL_FAST | REMOTE_ADVANCED | REMOTE_BACKUP
datatype model_preference = AUTO | FORCE_LOCAL | FORCE_REMOTE
datatype model_selection_objective = SPEED_FIRST | QUALITY_FIRST | COST_FIRST
datatype budget_insufficient_action = DEGRADE | ACTION_REJECT | ACTION_REQUIRE_CONFIRMATION
datatype budget_adjustment =
  ADJ_NONE | UPGRADE_TO_REMOTE | DOWNGRADE_TO_LOCAL | ADJ_REJECT | REQUIRE_CONFIRMATION

datatype model_selection_reason =
    USER_FORCED_LOCAL | USER_FORCED_REMOTE | LOCAL_SUFFICIENT | CONTEXT_WINDOW_REQUIRED
  | TOOL_CAPABILITY_REQUIRED | STRUCTURED_OUTPUT_REQUIRED | CODE_REASONING_REQUIRED
  | LONG_REASONING_REQUIRED | MULTI_STEP_PLAN | MULTI_AGENT_REQUIRED | HIGH_RISK_TASK

fun profile_id_value :: "model_profile_id \<Rightarrow> string" where
  "profile_id_value LOCAL_FAST = ''local_fast''"
| "profile_id_value REMOTE_ADVANCED = ''remote_advanced''"
| "profile_id_value REMOTE_BACKUP = ''remote_backup''"

fun selection_reason_value :: "model_selection_reason \<Rightarrow> string" where
  "selection_reason_value USER_FORCED_LOCAL = ''user_forced_local''"
| "selection_reason_value USER_FORCED_REMOTE = ''user_forced_remote''"
| "selection_reason_value LOCAL_SUFFICIENT = ''local_sufficient''"
| "selection_reason_value CONTEXT_WINDOW_REQUIRED = ''context_window_required''"
| "selection_reason_value TOOL_CAPABILITY_REQUIRED = ''tool_capability_required''"
| "selection_reason_value STRUCTURED_OUTPUT_REQUIRED = ''structured_output_required''"
| "selection_reason_value CODE_REASONING_REQUIRED = ''code_reasoning_required''"
| "selection_reason_value LONG_REASONING_REQUIRED = ''long_reasoning_required''"
| "selection_reason_value MULTI_STEP_PLAN = ''multi_step_plan''"
| "selection_reason_value MULTI_AGENT_REQUIRED = ''multi_agent_required''"
| "selection_reason_value HIGH_RISK_TASK = ''high_risk_task''"

record model_cost_profile =
  cp_profile_id :: model_profile_id
  cp_is_remote :: bool
  fixed_call_cost_units :: int
  input_cost_units_per_1k_tokens :: int
  output_cost_units_per_1k_tokens :: int
  estimated_latency_ms :: int

datatype profile_error =
    CostProfileNegative | CONTEXT_COUNTING_MODE_INVALID | CONTEXT_FRAMING_INVALID
  | ProfileNumberNotPositive | CostProfileIdMismatch | BreakerKeyBlank

definition cost_profile_check :: "model_cost_profile \<Rightarrow> profile_error option" where
  "cost_profile_check c = first_error
     [(fixed_call_cost_units c < 0, CostProfileNegative),
      (input_cost_units_per_1k_tokens c < 0, CostProfileNegative),
      (output_cost_units_per_1k_tokens c < 0, CostProfileNegative),
      (estimated_latency_ms c < 0, CostProfileNegative)]"

record model_profile =
  profile_id :: model_profile_id
  context_window :: int
  max_output_tokens :: int
  supports_tools :: bool
  supports_structured_output :: bool
  supports_code_reasoning :: bool
  supports_long_reasoning :: bool
  quality_tier :: int
  latency_tier :: int
  cost_profile :: "model_cost_profile option"
  is_remote :: "bool option"
  mp_breaker_key :: "string option"
  supports_native_tool_calling :: bool
  supports_provider_structured_output :: bool
  provider_kind :: string
  model_identity :: string
  request_counting_mode :: string
  request_counting_version :: string
  request_framing_bound :: int
  request_message_framing_bound :: int
  output_accounting_contract :: string

definition profile_check :: "model_profile \<Rightarrow> profile_error option" where
  "profile_check p = first_error
     [(request_counting_mode p \<notin> {''EXACT'', ''BOUNDED_ESTIMATE'', ''HEURISTIC''},
         CONTEXT_COUNTING_MODE_INVALID),
      (request_framing_bound p < 0, CONTEXT_FRAMING_INVALID),
      (request_message_framing_bound p < 0, CONTEXT_FRAMING_INVALID),
      (context_window p \<le> 0, ProfileNumberNotPositive),
      (max_output_tokens p \<le> 0, ProfileNumberNotPositive),
      (quality_tier p \<le> 0, ProfileNumberNotPositive),
      (latency_tier p \<le> 0, ProfileNumberNotPositive),
      (case cost_profile p of None \<Rightarrow> False | Some c \<Rightarrow> cp_profile_id c \<noteq> profile_id p,
         CostProfileIdMismatch),
      (case mp_breaker_key p of None \<Rightarrow> False | Some k \<Rightarrow> blank k, BreakerKeyBlank)]"

definition effective_is_remote :: "model_profile \<Rightarrow> bool" where
  "effective_is_remote p =
     (case is_remote p of
        Some b \<Rightarrow> b
      | None \<Rightarrow> (case cost_profile p of
                  Some c \<Rightarrow> cp_is_remote c
                | None \<Rightarrow> profile_id p = REMOTE_ADVANCED))"

definition effective_breaker_key :: "model_profile \<Rightarrow> string" where
  "effective_breaker_key p =
     (if truthy (mp_breaker_key p) then the (mp_breaker_key p)
      else ''profile:'' @ profile_id_value (profile_id p))"

text \<open>The fields of \<^verbatim>\<open>ModelContextRequirements\<close>.\<close>

record model_context_requirements =
  estimated_input_tokens :: int
  minimum_context_window :: int
  requires_long_context :: bool
  was_truncated :: bool
  mandatory_content_near_limit :: bool
  source_count :: int
  rag_item_count :: int
  tool_result_count :: int
  contains_code :: bool
  contains_structured_data :: bool
  raw_estimated_input_tokens :: int
  raw_minimum_context_window :: int

record model_selection_request =
  rq_agent_id :: string
  capability_requirements :: task_capability_requirements
  context_requirements :: model_context_requirements
  preference :: model_preference
  available_profiles :: "model_profile list"
  budget_snapshot :: "snapshot option"
  selection_objective :: model_selection_objective
  insufficient_action :: budget_insufficient_action

record model_selection_decision =
  selected_profile :: "model_profile_id option"
  reason_code :: model_selection_reason
  reason_text :: string
  matched_rules :: "string list"
  fallback_allowed :: bool
  capability_preferred_profile_id :: "model_profile_id option"
  selected_profile_id :: "model_profile_id option"
  decided_objective :: model_selection_objective
  adjustment_made :: budget_adjustment
  budget_reason_code :: "string option"
  estimated_cost_units :: int
  decided_latency_ms :: int
  quality_tradeoff_disclosed :: bool
  confirmation_required :: bool

text \<open>
  \<open>SelectionError\<close> carries the reason code, the requested profile, the missing capabilities
  and the two window sizes; \<open>UsageRejected\<close> is a \<^verbatim>\<open>BudgetUsage\<close> the estimate could
  not construct.
\<close>

datatype selection_error =
    SelectionError string "model_profile_id option" "string list" int int
  | UsageRejected budget_error

definition plain_error :: "string \<Rightarrow> model_profile_id option \<Rightarrow> selection_error" where
  "plain_error code requested = SelectionError code requested [] 0 0"

section \<open>Policy\<close>

record selection_policy =
  context_window_safety_ratio :: py_float
  multi_step_threshold :: int

text \<open>\<^verbatim>\<open>ratio < 1\<close>\<close>

definition float_lt_1 :: "py_float \<Rightarrow> bool" where
  "float_lt_1 f \<longleftrightarrow>
     (if 0 \<le> expo f then mant f * 2 ^ nat (expo f) < 1 else mant f < 2 ^ nat (- expo f))"

definition new_policy :: "py_float \<Rightarrow> int \<Rightarrow> selection_policy option" where
  "new_policy ratio threshold =
     (if float_lt_1 ratio then None
      else Some \<lparr>context_window_safety_ratio = ratio, multi_step_threshold = threshold\<rparr>)"

text \<open>The default arguments: the double nearest to 1.1, and 3.\<close>

definition default_ratio :: py_float where
  "default_ratio = Fl 4953959590107546 (- 52)"

definition default_policy :: selection_policy where
  "default_policy = \<lparr>context_window_safety_ratio = default_ratio, multi_step_threshold = 3\<rparr>"

definition required_context_window :: "selection_policy \<Rightarrow> int \<Rightarrow> int" where
  "required_context_window pol n =
     float_ceil (float_mul (float_of_int n) (context_window_safety_ratio pol))"

definition maximum_safe_context_window :: "selection_policy \<Rightarrow> int \<Rightarrow> int" where
  "maximum_safe_context_window pol w =
     float_floor (float_div (float_of_int w) (context_window_safety_ratio pol))"

definition validate_profiles ::
  "model_profile list \<Rightarrow> selection_error + (model_profile_id, model_profile) dict" where
  "validate_profiles ps =
     (if ps = [] then Inl (plain_error ''no_available_profiles'' None)
      else let mapped = dict_by profile_id ps
           in if length mapped \<noteq> length ps then Inl (plain_error ''duplicate_profile_id'' None)
              else Inr mapped)"

definition missing :: "model_profile \<Rightarrow> task_capability_requirements \<Rightarrow> int \<Rightarrow> string list" where
  "missing p req required =
     (if context_window p < required then [''context_window''] else []) @
     (if requires_tools req \<and> \<not> supports_tools p then [''tools''] else []) @
     (if requires_structured_output req \<and> \<not> supports_structured_output p
      then [''structured_output''] else []) @
     (if requires_code_reasoning req \<and> \<not> supports_code_reasoning p then [''code_reasoning''] else []) @
     (if requires_long_reasoning req \<and> \<not> supports_long_reasoning p then [''long_reasoning''] else [])"

definition first_missing_reason ::
  "model_profile option \<Rightarrow> task_capability_requirements \<Rightarrow> int \<Rightarrow> model_selection_reason" where
  "first_missing_reason local req required =
     (case local of
        None \<Rightarrow> CONTEXT_WINDOW_REQUIRED
      | Some p \<Rightarrow>
          if context_window p < required then CONTEXT_WINDOW_REQUIRED
          else if requires_tools req \<and> \<not> supports_tools p then TOOL_CAPABILITY_REQUIRED
          else if requires_structured_output req \<and> \<not> supports_structured_output p
          then STRUCTURED_OUTPUT_REQUIRED
          else if requires_code_reasoning req \<and> \<not> supports_code_reasoning p
          then CODE_REASONING_REQUIRED
          else LONG_REASONING_REQUIRED)"

fun reason_bytes :: "model_selection_reason \<Rightarrow> nat list" where
  "reason_bytes LOCAL_SUFFICIENT =
     [229, 189, 147, 229, 137, 141, 228, 184, 138, 228, 184, 139, 230, 150, 135, 229,
      146, 140, 232, 131, 189, 229, 138, 155, 233, 156, 128, 230, 177, 130, 229, 157,
      135, 230, 187, 161, 232, 182, 179, 239, 188, 140, 233, 128, 137, 230, 139, 169,
      230, 156, 172, 229, 156, 176, 232, 189, 187, 233, 135, 143, 230, 168, 161, 229,
      158, 139, 227, 128, 130]"
| "reason_bytes CONTEXT_WINDOW_REQUIRED =
     [229, 174, 140, 230, 149, 180, 228, 184, 138, 228, 184, 139, 230, 150, 135, 233,
      156, 128, 232, 166, 129, 230, 155, 180, 229, 164, 167, 231, 170, 151, 229, 143,
      163, 239, 188, 140, 229, 155, 160, 230, 173, 164, 233, 128, 137, 230, 139, 169,
      232, 191, 156, 231, 168, 139, 233, 171, 152, 231, 186, 167, 230, 168, 161, 229,
      158, 139, 227, 128, 130]"
| "reason_bytes TOOL_CAPABILITY_REQUIRED =
     [230, 156, 172, 229, 156, 176, 230, 168, 161, 229, 158, 139, 228, 184, 141, 230,
      187, 161, 232, 182, 179, 229, 183, 165, 229, 133, 183, 232, 131, 189, 229, 138,
      155, 239, 188, 140, 229, 155, 160, 230, 173, 164, 233, 128, 137, 230, 139, 169,
      232, 191, 156, 231, 168, 139, 233, 171, 152, 231, 186, 167, 230, 168, 161, 229,
      158, 139, 227, 128, 130]"
| "reason_bytes STRUCTURED_OUTPUT_REQUIRED =
     [230, 156, 172, 229, 156, 176, 230, 168, 161, 229, 158, 139, 228, 184, 141, 230,
      187, 161, 232, 182, 179, 231, 187, 147, 230, 158, 132, 229, 140, 150, 232, 190,
      147, 229, 135, 186, 232, 131, 189, 229, 138, 155, 239, 188, 140, 229, 155, 160,
      230, 173, 164, 233, 128, 137, 230, 139, 169, 232, 191, 156, 231, 168, 139, 233,
      171, 152, 231, 186, 167, 230, 168, 161, 229, 158, 139, 227, 128, 130]"
| "reason_bytes CODE_REASONING_REQUIRED =
     [230, 156, 172, 229, 156, 176, 230, 168, 161, 229, 158, 139, 228, 184, 141, 230,
      187, 161, 232, 182, 179, 228, 187, 163, 231, 160, 129, 230, 142, 168, 231, 144,
      134, 232, 131, 189, 229, 138, 155, 239, 188, 140, 229, 155, 160, 230, 173, 164,
      233, 128, 137, 230, 139, 169, 232, 191, 156, 231, 168, 139, 233, 171, 152, 231,
      186, 167, 230, 168, 161, 229, 158, 139, 227, 128, 130]"
| "reason_bytes LONG_REASONING_REQUIRED =
     [228, 187, 187, 229, 138, 161, 233, 156, 128, 232, 166, 129, 233, 149, 191, 230,
      142, 168, 231, 144, 134, 239, 188, 140, 229, 155, 160, 230, 173, 164, 233, 128,
      137, 230, 139, 169, 232, 191, 156, 231, 168, 139, 233, 171, 152, 231, 186, 167,
      230, 168, 161, 229, 158, 139, 227, 128, 130]"
| "reason_bytes MULTI_STEP_PLAN =
     [228, 187, 187, 229, 138, 161, 230, 173, 165, 233, 170, 164, 232, 190, 131, 229,
      164, 154, 239, 188, 140, 229, 155, 160, 230, 173, 164, 233, 128, 137, 230, 139,
      169, 232, 191, 156, 231, 168, 139, 233, 171, 152, 231, 186, 167, 230, 168, 161,
      229, 158, 139, 227, 128, 130]"
| "reason_bytes MULTI_AGENT_REQUIRED =
     [228, 187, 187, 229, 138, 161, 233, 156, 128, 232, 166, 129, 229, 164, 154, 230,
      153, 186, 232, 131, 189, 228, 189, 147, 229, 141, 143, 228, 189, 156, 239, 188,
      140, 229, 155, 160, 230, 173, 164, 233, 128, 137, 230, 139, 169, 232, 191, 156,
      231, 168, 139, 233, 171, 152, 231, 186, 167, 230, 168, 161, 229, 158, 139, 227,
      128, 130]"
| "reason_bytes HIGH_RISK_TASK =
     [228, 187, 187, 229, 138, 161, 233, 163, 142, 233, 153, 169, 232, 190, 131, 233,
      171, 152, 239, 188, 140, 229, 155, 160, 230, 173, 164, 233, 128, 137, 230, 139,
      169, 232, 191, 156, 231, 168, 139, 233, 171, 152, 231, 186, 167, 230, 168, 161,
      229, 158, 139, 227, 128, 130]"
| "reason_bytes USER_FORCED_LOCAL =
     [231, 148, 168, 230, 136, 183, 229, 188, 186, 229, 136, 182, 232, 166, 129, 230,
      177, 130, 228, 189, 191, 231, 148, 168, 230, 156, 172, 229, 156, 176, 230, 168,
      161, 229, 158, 139, 227, 128, 130]"
| "reason_bytes USER_FORCED_REMOTE =
     [231, 148, 168, 230, 136, 183, 229, 188, 186, 229, 136, 182, 232, 166, 129, 230,
      177, 130, 228, 189, 191, 231, 148, 168, 232, 191, 156, 231, 168, 139, 230, 168,
      161, 229, 158, 139, 227, 128, 130]"

definition utf8 :: "nat list \<Rightarrow> string" where
  "utf8 bs = map char_of bs"

text \<open>\<^verbatim>\<open>_decision\<close>\<close>

definition decision ::
  "model_profile_id \<Rightarrow> model_selection_reason \<Rightarrow> bool \<Rightarrow> model_selection_decision" where
  "decision pid reason truncated =
     \<lparr>selected_profile = Some pid, reason_code = reason, reason_text = utf8 (reason_bytes reason),
      matched_rules =
        (if truncated then [selection_reason_value reason, ''context_truncated''] else [selection_reason_value reason]),
      fallback_allowed = False, capability_preferred_profile_id = Some pid,
      selected_profile_id = Some pid, decided_objective = QUALITY_FIRST,
      adjustment_made = ADJ_NONE, budget_reason_code = None, estimated_cost_units = 0,
      decided_latency_ms = 0, quality_tradeoff_disclosed = False, confirmation_required = False\<rparr>"

text \<open>\<^verbatim>\<open>_cost\<close>, \<^verbatim>\<open>_latency\<close> and \<^verbatim>\<open>_estimated_usage\<close>\<close>

definition cost :: "model_profile \<Rightarrow> int \<Rightarrow> int" where
  "cost p tokens =
     (case cost_profile p of
        None \<Rightarrow> 0
      | Some c \<Rightarrow> fixed_call_cost_units c + (tokens * input_cost_units_per_1k_tokens c + 999) div 1000)"

definition latency :: "model_profile \<Rightarrow> int" where
  "latency p = (case cost_profile p of None \<Rightarrow> latency_tier p | Some c \<Rightarrow> estimated_latency_ms c)"

definition call_amounts :: "bool \<Rightarrow> int \<Rightarrow> int \<Rightarrow> int \<Rightarrow> dimension \<Rightarrow> int" where
  "call_amounts remote inp outp units d =
     (case d of
        model_calls \<Rightarrow> 1
      | remote_model_calls \<Rightarrow> of_bool remote
      | input_tokens \<Rightarrow> inp
      | output_tokens \<Rightarrow> outp
      | total_tokens \<Rightarrow> inp + outp
      | cost_units \<Rightarrow> units
      | _ \<Rightarrow> 0)"

definition estimated_usage :: "model_profile \<Rightarrow> int \<Rightarrow> budget_error + usage" where
  "estimated_usage p tokens = mk_usage
     (call_amounts (case cost_profile p of None \<Rightarrow> False | Some c \<Rightarrow> cp_is_remote c)
        tokens (max_output_tokens p) (cost p tokens)) False"

text \<open>\<^verbatim>\<open>_require_metadata_if_needed\<close>\<close>

definition metadata_error :: "model_selection_request \<Rightarrow> model_profile \<Rightarrow> selection_error option" where
  "metadata_error rq p =
     (if (selection_objective rq = COST_FIRST \<or>
          (case budget_snapshot rq of
             None \<Rightarrow> False
           | Some sn \<Rightarrow> limit_of (sn_budget sn) remote_model_calls \<noteq> None \<or>
                        limit_of (sn_budget sn) cost_units \<noteq> None)) \<and>
         cost_profile p = None
      then Some (plain_error ''MODEL_BUDGET_METADATA_MISSING'' (Some (profile_id p)))
      else None)"

definition requires_remote ::
  "task_capability_requirements \<Rightarrow> model_profile option \<Rightarrow> int \<Rightarrow> bool" where
  "requires_remote req local raw_required \<longleftrightarrow>
     (case local of None \<Rightarrow> True | Some p \<Rightarrow> context_window p < raw_required) \<or>
     requires_multi_agent req \<or> requires_long_reasoning req \<or> 3 \<le> estimated_steps req \<or>
     req_risk_level req = HIGH"

definition downgrade_text :: string where
  "downgrade_text = utf8
     [232, 191, 156, 231, 168, 139, 230, 168, 161, 229, 158, 139, 233, 162, 132, 231,
      174, 151, 228, 184, 141, 232, 182, 179, 239, 188, 140, 229, 183, 178, 233, 128,
      137, 230, 139, 169, 230, 187, 161, 232, 182, 179, 231, 161, 172, 232, 131, 189,
      229, 138, 155, 231, 154, 132, 230, 156, 172, 229, 156, 176, 230, 168, 161, 229,
      158, 139, 227, 128, 130]"

definition confirm_text :: string where
  "confirm_text = utf8
     [233, 162, 132, 231, 174, 151, 228, 184, 141, 232, 182, 179, 239, 188, 140, 233,
      156, 128, 232, 166, 129, 231, 161, 174, 232, 174, 164, 227, 128, 130]"

definition budget_decision ::
  "model_profile \<Rightarrow> model_profile_id \<Rightarrow> model_selection_request \<Rightarrow> budget_adjustment \<Rightarrow> bool
     \<Rightarrow> model_selection_decision" where
  "budget_decision p preferred rq adj disclosed =
     \<lparr>selected_profile = Some (profile_id p), reason_code = MULTI_AGENT_REQUIRED,
      reason_text = downgrade_text, matched_rules = [''budget_downgrade''],
      fallback_allowed = False, capability_preferred_profile_id = Some preferred,
      selected_profile_id = Some (profile_id p), decided_objective = selection_objective rq,
      adjustment_made = adj, budget_reason_code = Some ''REMOTE_BUDGET_INSUFFICIENT'',
      estimated_cost_units = cost p (minimum_context_window (context_requirements rq)),
      decided_latency_ms = latency p, quality_tradeoff_disclosed = disclosed,
      confirmation_required = False\<rparr>"

definition confirmation_decision :: "model_selection_request \<Rightarrow> model_selection_decision" where
  "confirmation_decision rq =
     \<lparr>selected_profile = None, reason_code = MULTI_AGENT_REQUIRED,
      reason_text = confirm_text, matched_rules = [''budget_confirmation_required''],
      fallback_allowed = False, capability_preferred_profile_id = Some REMOTE_ADVANCED,
      selected_profile_id = None, decided_objective = selection_objective rq,
      adjustment_made = REQUIRE_CONFIRMATION, budget_reason_code = Some ''REMOTE_BUDGET_INSUFFICIENT'',
      estimated_cost_units = 0, decided_latency_ms = 0, quality_tradeoff_disclosed = False,
      confirmation_required = True\<rparr>"

section \<open>Selection\<close>

text \<open>\<^verbatim>\<open>profiles.get(id) in xs\<close>\<close>

definition is_in :: "model_profile option \<Rightarrow> model_profile list \<Rightarrow> bool" where
  "is_in p xs = (case p of None \<Rightarrow> False | Some q \<Rightarrow> q \<in> set xs)"

text \<open>The list comprehension over \<^verbatim>\<open>BudgetPolicy.feasible\<close>, whose estimate may raise.\<close>

fun feasible_profiles ::
  "snapshot \<Rightarrow> int \<Rightarrow> model_profile list \<Rightarrow> selection_error + model_profile list" where
  "feasible_profiles sn tokens [] = Inr []"
| "feasible_profiles sn tokens (p # ps) =
     (case estimated_usage p tokens of
        Inl e \<Rightarrow> Inl (UsageRejected e)
      | Inr u \<Rightarrow>
          (case feasible_profiles sn tokens ps of
             Inl e \<Rightarrow> Inl e
           | Inr rest \<Rightarrow> Inr (if feasible sn u then p # rest else rest)))"

definition select_forced ::
  "selection_policy \<Rightarrow> model_selection_request \<Rightarrow> (model_profile_id, model_profile) dict
     \<Rightarrow> selection_error + model_selection_decision" where
  "select_forced pol rq profiles =
     (let pid = (if preference rq = FORCE_LOCAL then LOCAL_FAST else REMOTE_ADVANCED);
          ctx = context_requirements rq;
          required = required_context_window pol (minimum_context_window ctx)
      in case map_of profiles pid of
           None \<Rightarrow> Inl (plain_error ''requested_profile_unavailable'' (Some pid))
         | Some p \<Rightarrow>
             if missing p (capability_requirements rq) required \<noteq> []
             then Inl (SelectionError ''forced_profile_constraints_unmet'' (Some pid)
                         (missing p (capability_requirements rq) required) required (context_window p))
             else (case metadata_error rq p of
                     Some e \<Rightarrow> Inl e
                   | None \<Rightarrow>
                       (let ok = Inr (decision pid
                                   (if pid = LOCAL_FAST then USER_FORCED_LOCAL else USER_FORCED_REMOTE)
                                   (was_truncated ctx))
                        in case budget_snapshot rq of
                             None \<Rightarrow> ok
                           | Some sn \<Rightarrow>
                               (case estimated_usage p (estimated_input_tokens ctx) of
                                  Inl e \<Rightarrow> Inl (UsageRejected e)
                                | Inr u \<Rightarrow>
                                    if feasible sn u then ok
                                    else Inl (plain_error
                                      (if pid = REMOTE_ADVANCED then ''forced_remote_budget_unavailable''
                                       else ''forced_profile_budget_unavailable'') (Some pid))))))"

text \<open>
  The budget stage of the automatic choice: an error, a decision that ends the choice early, or
  the profiles that are left, sorted by the objective.
\<close>

datatype budget_stage =
  StageError selection_error | StageDecision model_selection_decision | Remaining "model_profile list"

definition budget_filter ::
  "selection_policy \<Rightarrow> model_selection_request \<Rightarrow> (model_profile_id, model_profile) dict
     \<Rightarrow> snapshot \<Rightarrow> int \<Rightarrow> model_profile list \<Rightarrow> budget_stage" where
  "budget_filter pol rq profiles sn raw_required eligible =
     (let local = map_of profiles LOCAL_FAST; remote = map_of profiles REMOTE_ADVANCED;
          ctx = context_requirements rq
      in case first_some (metadata_error rq) eligible of
           Some e \<Rightarrow> StageError e
         | None \<Rightarrow>
             (case feasible_profiles sn (estimated_input_tokens ctx) eligible of
                Inl e \<Rightarrow> StageError e
              | Inr affordable \<Rightarrow>
                  (let preferred_remote = is_in remote eligible \<and>
                         requires_remote (capability_requirements rq) local raw_required
                   in if affordable = [] then StageError (plain_error ''budget_unavailable'' None)
                      else if preferred_remote \<and> \<not> is_in remote affordable then
                        (if is_in local affordable \<and> insufficient_action rq = DEGRADE
                         then StageDecision (budget_decision (the local) REMOTE_ADVANCED rq
                                DOWNGRADE_TO_LOCAL True)
                         else if insufficient_action rq = ACTION_REQUIRE_CONFIRMATION
                         then StageDecision (confirmation_decision rq)
                         else StageError (plain_error ''budget_unavailable'' None))
                      else Remaining
                        (case selection_objective rq of
                           SPEED_FIRST \<Rightarrow> sort_key latency affordable
                         | COST_FIRST \<Rightarrow> sort_key (\<lambda>p. cost p (minimum_context_window ctx)) affordable
                         | QUALITY_FIRST \<Rightarrow> sort_key (\<lambda>p. - quality_tier p) affordable))))"

definition final_choice ::
  "selection_policy \<Rightarrow> model_selection_request \<Rightarrow> (model_profile_id, model_profile) dict
     \<Rightarrow> int \<Rightarrow> int \<Rightarrow> model_profile list \<Rightarrow> selection_error + model_selection_decision" where
  "final_choice pol rq profiles required raw_required eligible =
     (let local = map_of profiles LOCAL_FAST; remote = map_of profiles REMOTE_ADVANCED;
          req = capability_requirements rq; trunc = was_truncated (context_requirements rq)
      in if eligible = []
         then Inl (SelectionError ''no_profile_satisfies_constraints'' None [] required
                     (Max (set (map (context_window \<circ> snd) profiles))))
         else if \<not> is_in local eligible \<and> is_in remote eligible
         then Inr (decision REMOTE_ADVANCED (first_missing_reason local req required) trunc)
         else if is_in remote eligible \<and> is_in local eligible \<and> context_window (the local) < raw_required
         then Inr (decision REMOTE_ADVANCED CONTEXT_WINDOW_REQUIRED trunc)
         else if is_in remote eligible \<and> requires_multi_agent req
         then Inr (decision REMOTE_ADVANCED MULTI_AGENT_REQUIRED False)
         else if is_in remote eligible \<and> requires_long_reasoning req
         then Inr (decision REMOTE_ADVANCED LONG_REASONING_REQUIRED False)
         else if is_in remote eligible \<and> multi_step_threshold pol \<le> estimated_steps req
         then Inr (decision REMOTE_ADVANCED MULTI_STEP_PLAN False)
         else if is_in remote eligible \<and> req_risk_level req = HIGH
         then Inr (decision REMOTE_ADVANCED HIGH_RISK_TASK False)
         else if is_in local eligible then Inr (decision LOCAL_FAST LOCAL_SUFFICIENT trunc)
         else Inr (decision (profile_id (hd eligible)) LOCAL_SUFFICIENT trunc))"

definition select ::
  "selection_policy \<Rightarrow> model_selection_request \<Rightarrow> selection_error + model_selection_decision" where
  "select pol rq =
     (case validate_profiles (available_profiles rq) of
        Inl e \<Rightarrow> Inl e
      | Inr profiles \<Rightarrow>
          (let ctx = context_requirements rq;
               required = required_context_window pol (minimum_context_window ctx);
               raw = (if raw_minimum_context_window ctx = 0 then minimum_context_window ctx
                      else raw_minimum_context_window ctx);
               raw_required = required_context_window pol raw
           in if preference rq \<noteq> AUTO then select_forced pol rq profiles
              else let eligible = filter (\<lambda>p. missing p (capability_requirements rq) required = [])
                                    (map snd profiles)
                   in case (if selection_objective rq = COST_FIRST
                            then first_some (metadata_error rq) eligible else None) of
                        Some e \<Rightarrow> Inl e
                      | None \<Rightarrow>
                          (case budget_snapshot rq of
                             None \<Rightarrow> final_choice pol rq profiles required raw_required eligible
                           | Some sn \<Rightarrow>
                               (case budget_filter pol rq profiles sn raw_required eligible of
                                  StageError e \<Rightarrow> Inl e
                                | StageDecision d \<Rightarrow> Inr d
                                | Remaining left \<Rightarrow>
                                    final_choice pol rq profiles required raw_required left))))"

section \<open>Resolver\<close>

definition resolve :: "(model_profile_id, 'engine) dict \<Rightarrow> model_profile_id \<Rightarrow> selection_error + 'engine" where
  "resolve engines pid =
     (case map_of engines pid of
        Some e \<Rightarrow> Inr e
      | None \<Rightarrow> Inl (plain_error ''resolved_profile_unavailable'' (Some pid)))"

section \<open>Properties\<close>

subsection \<open>Windows\<close>

definition policy_ok :: "selection_policy \<Rightarrow> bool" where
  "policy_ok pol \<longleftrightarrow> float_ge_1 (context_window_safety_ratio pol)"

text \<open>The constructor accepts only normalised ratios of at least one.\<close>

lemma new_policy_ok:
  assumes "new_policy ratio threshold = Some pol" "2 ^ 52 \<le> mant ratio" "mant ratio < 2 ^ 53"
  shows "policy_ok pol"
proof -
  have pol: "\<not> float_lt_1 ratio" "context_window_safety_ratio pol = ratio"
    using assms(1) by (auto simp: new_policy_def split: if_splits)
  have "- 52 \<le> expo ratio"
  proof (rule ccontr)
    assume "\<not> - 52 \<le> expo ratio"
    then have "53 \<le> nat (- expo ratio)" "expo ratio < 0" by auto
    then have "(2 :: int) ^ 53 \<le> 2 ^ nat (- expo ratio)" by (intro power_increasing) auto
    with assms(3) \<open>expo ratio < 0\<close> pol(1) show False by (simp add: float_lt_1_def)
  qed
  with assms pol(2) show ?thesis by (simp add: policy_ok_def float_ge_1_def)
qed

lemma default_policy_ok: "policy_ok default_policy"
  by (simp add: policy_ok_def float_ge_1_def default_policy_def default_ratio_def)

lemma required_ge:
  "policy_ok pol \<Longrightarrow> 0 \<le> n \<Longrightarrow> n < 2 ^ 52 \<Longrightarrow> n \<le> required_context_window pol n"
  by (simp add: required_context_window_def policy_ok_def ceil_scaled_ge)

subsection \<open>What a selection guarantees\<close>

lemma validate_profiles_Inr:
  assumes "validate_profiles ps = Inr m"
  shows "distinct (map profile_id ps)" "ps \<noteq> []" "map snd m = ps"
    "map_of m pid = Some p \<longleftrightarrow> p \<in> set ps \<and> profile_id p = pid"
proof -
  have m: "m = dict_by profile_id ps" "length (dict_by profile_id ps) = length ps" "ps \<noteq> []"
    using assms by (auto simp: validate_profiles_def Let_def split: if_splits)
  then have d: "distinct (map profile_id ps)" by (simp add: dict_by_length_iff)
  then show "distinct (map profile_id ps)" "ps \<noteq> []" "map snd m = ps"
    using m by (simp_all add: dict_by_distinct comp_def)
  show "map_of m pid = Some p \<longleftrightarrow> p \<in> set ps \<and> profile_id p = pid"
    unfolding m(1) by (rule map_of_dict_by [OF d])
qed

definition affordable_for :: "model_selection_request \<Rightarrow> model_profile \<Rightarrow> bool" where
  "affordable_for rq p =
     (case budget_snapshot rq of
        None \<Rightarrow> True
      | Some sn \<Rightarrow>
          (case estimated_usage p (estimated_input_tokens (context_requirements rq)) of
             Inl e \<Rightarrow> False
           | Inr u \<Rightarrow> feasible sn u))"

lemma feasible_profiles_Inr:
  "feasible_profiles sn tokens ps = Inr qs \<Longrightarrow>
     set qs = {p \<in> set ps. \<exists>u. estimated_usage p tokens = Inr u \<and> feasible sn u}"
  by (induction ps arbitrary: qs) (auto split: sum.splits if_splits)

lemma missing_Nil_iff:
  "missing p req required = [] \<longleftrightarrow>
     required \<le> context_window p \<and> (requires_tools req \<longrightarrow> supports_tools p) \<and>
     (requires_structured_output req \<longrightarrow> supports_structured_output p) \<and>
     (requires_code_reasoning req \<longrightarrow> supports_code_reasoning p) \<and>
     (requires_long_reasoning req \<longrightarrow> supports_long_reasoning p)"
  by (auto simp: missing_def)

lemma decision_fields [simp]:
  "selected_profile_id (decision pid r t) = Some pid" "selected_profile (decision pid r t) = Some pid"
  "confirmation_required (decision pid r t) = False"
  by (simp_all add: decision_def)

text \<open>The final stage picks one of the profiles it is given.\<close>

lemma final_choice_picks:
  assumes "final_choice pol rq profiles required raw eligible = Inr d"
    and "\<And>pid p. map_of profiles pid = Some p \<Longrightarrow> profile_id p = pid"
  shows "\<exists>pid \<in> profile_id ` set eligible. selected_profile_id d = Some pid \<and> selected_profile d = Some pid"
proof -
  have here: "pid \<in> profile_id ` set eligible" if "is_in (map_of profiles pid) eligible" for pid
    using that assms(2) by (auto simp: is_in_def split: option.splits)
  have "\<exists>pid r t. d = decision pid r t \<and> pid \<in> profile_id ` set eligible"
    using assms(1) here [of REMOTE_ADVANCED] here [of LOCAL_FAST]
    by (simp only: final_choice_def Let_def split: if_splits) (blast intro: hd_in_set)+
  then show ?thesis by auto
qed

lemma budget_filter_Remaining:
  assumes "budget_filter pol rq profiles sn raw eligible = Remaining left"
  shows "set left = {p \<in> set eligible. \<exists>u. estimated_usage p
     (estimated_input_tokens (context_requirements rq)) = Inr u \<and> feasible sn u}"
  using assms
  by (auto simp: budget_filter_def Let_def dest!: feasible_profiles_Inr
      split: option.splits sum.splits if_splits model_selection_objective.splits)

lemma budget_filter_Decision:
  assumes "budget_filter pol rq profiles sn raw eligible = StageDecision d"
    and "selected_profile_id d = Some pid"
    and "\<And>pid p. map_of profiles pid = Some p \<Longrightarrow> profile_id p = pid"
  shows "\<exists>p \<in> set eligible. profile_id p = pid \<and> selected_profile d = Some pid \<and>
    (\<exists>u. estimated_usage p (estimated_input_tokens (context_requirements rq)) = Inr u \<and> feasible sn u)"
proof -
  obtain affordable where aff:
      "feasible_profiles sn (estimated_input_tokens (context_requirements rq)) eligible = Inr affordable"
    and d: "is_in (map_of profiles LOCAL_FAST) affordable"
      "d = budget_decision (the (map_of profiles LOCAL_FAST)) REMOTE_ADVANCED rq DOWNGRADE_TO_LOCAL True"
    using assms(1,2)
    by (auto simp: budget_filter_def Let_def confirmation_decision_def
        split: option.splits sum.splits if_splits)
  then obtain p where "map_of profiles LOCAL_FAST = Some p" "p \<in> set affordable"
    by (auto simp: is_in_def split: option.splits)
  with d assms(2) assms(3) [of LOCAL_FAST p] feasible_profiles_Inr [OF aff] show ?thesis
    by (intro bexI [of _ p]) (auto simp: budget_decision_def)
qed

lemma select_forced_picks:
  assumes "select_forced pol rq profiles = Inr d" "selected_profile_id d = Some pid"
  shows "\<exists>p. map_of profiles pid = Some p \<and> selected_profile d = Some pid \<and>
    missing p (capability_requirements rq)
      (required_context_window pol (minimum_context_window (context_requirements rq))) = [] \<and>
    affordable_for rq p"
  using assms
  by (auto simp: select_forced_def Let_def affordable_for_def
      split: option.split_asm sum.split_asm if_split_asm)

lemma eligible_of_select:
  assumes "select pol rq = Inr d" "selected_profile_id d = Some pid"
    and req: "required = required_context_window pol (minimum_context_window (context_requirements rq))"
  shows "\<exists>p \<in> set (available_profiles rq). profile_id p = pid \<and> selected_profile d = Some pid \<and>
    missing p (capability_requirements rq) required = [] \<and> affordable_for rq p"
proof -
  obtain profiles where v: "validate_profiles (available_profiles rq) = Inr profiles"
    using assms(1) by (auto simp: select_def split: sum.splits)
  note v = v validate_profiles_Inr [OF v]
  have lookup: "\<And>pid p. map_of profiles pid = Some p \<Longrightarrow> profile_id p = pid" using v(5) by blast
  let ?el = "filter (\<lambda>p. missing p (capability_requirements rq) required = []) (available_profiles rq)"
  show ?thesis
  proof (cases "preference rq = AUTO")
    case False
    then have "select_forced pol rq profiles = Inr d" using assms(1) v(1) by (simp add: select_def Let_def)
    from select_forced_picks [OF this assms(2)] show ?thesis
      using v(5) req by blast
  next
    case True
    then consider
      (free) raw where "budget_snapshot rq = None" "final_choice pol rq profiles required raw ?el = Inr d"
    | (early) sn raw where "budget_snapshot rq = Some sn" "budget_filter pol rq profiles sn raw ?el = StageDecision d"
    | (left) sn raw left where "budget_snapshot rq = Some sn" "budget_filter pol rq profiles sn raw ?el = Remaining left"
        "final_choice pol rq profiles required raw left = Inr d"
      using assms(1) v(1,4)
      by (auto simp: select_def Let_def req split: option.splits budget_stage.splits if_splits)
    then show ?thesis
    proof cases
      case free
      from final_choice_picks [OF free(2) lookup] free(1) assms(2) show ?thesis
        by (auto simp: affordable_for_def)
    next
      case early
      from budget_filter_Decision [OF early(2) assms(2) lookup] early(1) show ?thesis
        by (fastforce simp: affordable_for_def)
    next
      case left
      from final_choice_picks [OF left(3) lookup] budget_filter_Remaining [OF left(2)] left(1) assms(2)
      show ?thesis by (fastforce simp: affordable_for_def)
    qed
  qed
qed

text \<open>
  C36. A selected profile is always one that was offered, can do what the step requires, has a
  window at least as large as the context needs with the safety margin (never less than the
  context itself, in spite of the float rounding), and is affordable under the budget.\<close>

theorem select_sound:
  assumes "select pol rq = Inr d" "selected_profile_id d = Some pid"
    and "policy_ok pol"
    and "0 \<le> minimum_context_window (context_requirements rq)"
    and "minimum_context_window (context_requirements rq) < 2 ^ 52"
  shows "\<exists>p \<in> set (available_profiles rq). profile_id p = pid \<and>
    minimum_context_window (context_requirements rq) \<le>
      required_context_window pol (minimum_context_window (context_requirements rq)) \<and>
    required_context_window pol (minimum_context_window (context_requirements rq)) \<le> context_window p \<and>
    (requires_tools (capability_requirements rq) \<longrightarrow> supports_tools p) \<and>
    (requires_structured_output (capability_requirements rq) \<longrightarrow> supports_structured_output p) \<and>
    (requires_code_reasoning (capability_requirements rq) \<longrightarrow> supports_code_reasoning p) \<and>
    (requires_long_reasoning (capability_requirements rq) \<longrightarrow> supports_long_reasoning p) \<and>
    affordable_for rq p"
  using eligible_of_select [OF assms(1,2) refl] required_ge [OF assms(3-5)]
  unfolding missing_Nil_iff by blast

subsection \<open>The objective\<close>

lemma sort_key_Nil_iff [simp]: "sort_key f xs = [] \<longleftrightarrow> xs = []"
  by (metis length_0_conv length_sort)

lemma sort_key_hd_unique:
  assumes "set xs \<subseteq> {x}" "xs \<noteq> []"
  shows "hd (sort_key f xs) = x"
proof -
  have "sort_key f xs \<noteq> []" using assms(2) by simp
  then have "hd (sort_key f xs) \<in> set (sort_key f xs)" by (rule hd_in_set)
  with assms(1) show ?thesis by auto
qed

text \<open>Reordering the profiles left does not change the final choice: there are only three ids.\<close>

lemma final_choice_order:
  assumes "set xs = set ys" "set xs \<subseteq> set (map snd profiles)"
    and "\<And>pid p. map_of profiles pid = Some p \<longleftrightarrow> p \<in> set (map snd profiles) \<and> profile_id p = pid"
  shows "final_choice pol rq profiles required raw xs = final_choice pol rq profiles required raw ys"
proof -
  have same: "is_in p xs = is_in p ys" for p using assms(1) by (simp add: is_in_def split: option.split)
  have nil: "xs = [] \<longleftrightarrow> ys = []" using assms(1) by (metis set_empty)
  have backup: "profile_id (hd zs) = REMOTE_BACKUP"
    if "zs \<noteq> []" "set zs = set xs" "\<not> is_in (map_of profiles LOCAL_FAST) xs"
      "\<not> is_in (map_of profiles REMOTE_ADVANCED) xs" for zs
  proof -
    have "hd zs \<in> set xs" using that(1,2) hd_in_set by blast
    then have "map_of profiles (profile_id (hd zs)) = Some (hd zs)" using assms(2,3) by blast
    with that(3,4) \<open>hd zs \<in> set xs\<close> show ?thesis
      by (cases "profile_id (hd zs)") (auto simp: is_in_def)
  qed
  have "profile_id (hd xs) = profile_id (hd ys)"
    if "xs \<noteq> []" "\<not> is_in (map_of profiles LOCAL_FAST) xs" "\<not> is_in (map_of profiles REMOTE_ADVANCED) xs"
    using backup [of xs] backup [of ys] that nil assms(1) by simp
  then show ?thesis unfolding final_choice_def Let_def by (simp add: nil same)
qed

text \<open>Whether the objective is speed or quality, every request gets the same profile.\<close>

lemma budget_filter_objective:
  assumes "selection_objective rq \<noteq> COST_FIRST" "obj \<noteq> COST_FIRST"
  shows "case (budget_filter pol rq profiles sn raw eligible,
               budget_filter pol (rq\<lparr>selection_objective := obj\<rparr>) profiles sn raw eligible) of
      (StageError e, StageError e') \<Rightarrow> e = e'
    | (StageDecision d, StageDecision d') \<Rightarrow> d = d'\<lparr>decided_objective := selection_objective rq\<rparr>
    | (Remaining xs, Remaining ys) \<Rightarrow> set xs = set ys
    | _ \<Rightarrow> False"
proof -
  have meta: "metadata_error (rq\<lparr>selection_objective := obj\<rparr>) = metadata_error rq"
    using assms by (simp add: metadata_error_def fun_eq_iff)
  show ?thesis
  proof (cases "first_some (metadata_error rq) eligible")
    case None
    show ?thesis
      by (cases "feasible_profiles sn (estimated_input_tokens (context_requirements rq)) eligible")
         (simp_all add: budget_filter_def Let_def meta None budget_decision_def
           confirmation_decision_def split: model_selection_objective.split)
  qed (simp add: budget_filter_def Let_def meta)
qed


subsection \<open>The safe window is not always safe\<close>

text \<open>
  The context builder is told to fill at most \<open>maximum_safe_context_window\<close> tokens, yet a
  context of exactly that size may be rejected: with the default ratio and a window of 187 tokens the
  bound is 170, for which the selection demands a window of 188.\<close>

theorem safe_window_rejected:
  "maximum_safe_context_window default_policy 187 = 170 \<and>
   required_context_window default_policy (maximum_safe_context_window default_policy 187) = 188"
  by code_simp

section \<open>Concrete requests\<close>

definition sample_profile :: "model_profile_id \<Rightarrow> int \<Rightarrow> model_profile" where
  "sample_profile pid w =
     \<lparr>profile_id = pid, context_window = w, max_output_tokens = 512, supports_tools = True,
      supports_structured_output = True, supports_code_reasoning = True,
      supports_long_reasoning = (pid \<noteq> LOCAL_FAST), quality_tier = 1, latency_tier = 1,
      cost_profile = None, is_remote = None, mp_breaker_key = None,
      supports_native_tool_calling = False, supports_provider_structured_output = False,
      provider_kind = [], model_identity = [], request_counting_mode = ''HEURISTIC'',
      request_counting_version = [], request_framing_bound = 0,
      request_message_framing_bound = 0, output_accounting_contract = []\<rparr>"

definition sample_context :: "int \<Rightarrow> model_context_requirements" where
  "sample_context n =
     \<lparr>estimated_input_tokens = n, minimum_context_window = n, requires_long_context = False,
      was_truncated = False, mandatory_content_near_limit = False, source_count = 0,
      rag_item_count = 0, tool_result_count = 0, contains_code = False,
      contains_structured_data = False, raw_estimated_input_tokens = 0,
      raw_minimum_context_window = 0\<rparr>"

definition sample_requirements :: "bool \<Rightarrow> int \<Rightarrow> task_capability_requirements" where
  "sample_requirements tools steps =
     \<lparr>requires_planning = False, requires_tools = tools, requires_rag = False,
      requires_multi_agent = False, requires_code_reasoning = False,
      requires_structured_output = False, requires_long_reasoning = False,
      req_risk_level = LOW, estimated_steps = steps\<rparr>"

definition sample_request :: "model_profile list \<Rightarrow> int \<Rightarrow> int \<Rightarrow> model_selection_request" where
  "sample_request ps n steps =
     \<lparr>rq_agent_id = ''chat'', capability_requirements = sample_requirements True steps,
      context_requirements = sample_context n, preference = AUTO, available_profiles = ps,
      budget_snapshot = None, selection_objective = QUALITY_FIRST,
      insufficient_action = ACTION_REJECT\<rparr>"

lemma sample_select:
  "select default_policy
     (sample_request [sample_profile LOCAL_FAST 4096, sample_profile REMOTE_ADVANCED 32768] 2000 1) =
     Inr (decision LOCAL_FAST LOCAL_SUFFICIENT False)"
  by code_simp

theorem select_sound_witness:
  "\<exists>p. profile_id p = LOCAL_FAST \<and> 2000 \<le> context_window p \<and> supports_tools p \<and>
     p \<in> {sample_profile LOCAL_FAST 4096, sample_profile REMOTE_ADVANCED 32768}"
proof -
  let ?rq = "sample_request [sample_profile LOCAL_FAST 4096, sample_profile REMOTE_ADVANCED 32768] 2000 1"
  obtain p where "p \<in> set (available_profiles ?rq)" "profile_id p = LOCAL_FAST"
    "2000 \<le> required_context_window default_policy 2000"
    "required_context_window default_policy 2000 \<le> context_window p" "supports_tools p"
    using select_sound [OF sample_select _ default_policy_ok, of LOCAL_FAST]
    by (auto simp: sample_request_def sample_context_def sample_requirements_def)
  then show ?thesis by (intro exI [of _ p]) (auto simp: sample_request_def)
qed


end
