(* ===== verification/Model_Routing.thy ===== *)
theory Model_Routing
  imports Model_Selection Circuit_Breaker
begin

text \<open>
  \<^verbatim>\<open>core/runtime/model_routing.py\<close>: the candidate chain a model call walks through, built
  from a selection decision, and the rule when a failed call may fall back to the next candidate.
  The policy only reads its input; the loop over the profiles is \<open>route_loop\<close>.
\<close>

section \<open>Data\<close>

datatype model_failure_category =
    TRANSIENT_PROVIDER_FAILURE | RATE_LIMITED | PROVIDER_TIMEOUT | PROVIDER_CONNECTION_ERROR
  | PROVIDER_PROTOCOL_ERROR | PROVIDER_CONFIGURATION_ERROR | CONTEXT_LIMIT_EXCEEDED
  | INVALID_REQUEST | OUTPUT_VALIDATION_FAILED | SAFETY_REFUSAL | BUSINESS_FAILURE
  | CATEGORY_CANCELLED | DEADLINE_EXCEEDED | BUDGET_EXHAUSTED | CIRCUIT_OPEN | UNKNOWN_FAILURE

datatype routing_adjustment =
    ROUTE_NONE | ESCALATE_TO_REMOTE | ROUTE_DOWNGRADE_TO_LOCAL | SWITCH_SAME_TIER | ROUTE_REJECT
  | ROUTE_REQUIRE_CONFIRMATION

record model_routing_candidate =
  candidate_profile :: model_profile
  candidate_breaker_key :: string
  candidate_adjustment :: routing_adjustment
  candidate_reason_code :: string
  breaker_open_at_decision :: bool

record model_routing_decision =
  rd_capability_preferred :: "model_profile_id option"
  initial_selected_profile_id :: "model_profile_id option"
  candidates :: "model_routing_candidate list"
  rd_required_context_window :: int
  rd_quality_tradeoff_disclosed :: bool
  rd_confirmation_required :: bool
  rd_reason_code :: string

datatype routing_error =
    DUPLICATE_PROFILE_ID | INITIAL_PROFILE_UNAVAILABLE | NO_ROUTING_CANDIDATE
  | RoutingUsageRejected budget_error

definition default_fallback :: "model_failure_category \<Rightarrow> bool" where
  "default_fallback c \<longleftrightarrow> c \<in> {TRANSIENT_PROVIDER_FAILURE, PROVIDER_TIMEOUT, RATE_LIMITED}"

record routing_policy =
  allow_escalation :: bool
  allow_downgrade :: bool
  require_confirmation_for_downgrade :: bool
  rp_selection_policy :: selection_policy

section \<open>Helpers\<close>

definition can_fallback ::
  "model_failure_category \<Rightarrow> model_profile \<Rightarrow> model_profile \<Rightarrow> bool \<Rightarrow> bool" where
  "can_fallback category failed next_profile output_started =
     (if output_started then False
      else if default_fallback category then True
      else if category = CIRCUIT_OPEN then True
      else if category = CONTEXT_LIMIT_EXCEEDED
      then context_window next_profile > context_window failed
      else False)"

definition preference_allows :: "model_preference \<Rightarrow> model_profile \<Rightarrow> bool" where
  "preference_allows pref p =
     (case pref of
        FORCE_LOCAL \<Rightarrow> \<not> effective_is_remote p
      | FORCE_REMOTE \<Rightarrow> effective_is_remote p
      | AUTO \<Rightarrow> True)"

definition adjustment :: "model_profile \<Rightarrow> model_profile \<Rightarrow> routing_adjustment" where
  "adjustment initial p =
     (if profile_id p = profile_id initial then ROUTE_NONE
      else if \<not> effective_is_remote initial \<and> effective_is_remote p then ESCALATE_TO_REMOTE
      else if effective_is_remote initial \<and> \<not> effective_is_remote p then ROUTE_DOWNGRADE_TO_LOCAL
      else SWITCH_SAME_TIER)"

text \<open>The table of \<^verbatim>\<open>_reason_code\<close>; a missing key is a \<^verbatim>\<open>KeyError\<close>.\<close>

fun routing_reason_code :: "routing_adjustment \<Rightarrow> string option" where
  "routing_reason_code ROUTE_NONE = Some ''INITIAL_SELECTION''"
| "routing_reason_code ESCALATE_TO_REMOTE = Some ''PROVIDER_FAILURE_ESCALATION''"
| "routing_reason_code ROUTE_DOWNGRADE_TO_LOCAL = Some ''PROVIDER_FAILURE_DOWNGRADE''"
| "routing_reason_code SWITCH_SAME_TIER = Some ''PROVIDER_FAILURE_SAME_TIER_SWITCH''"
| "routing_reason_code _ = None"

definition routing_missing ::
  "model_profile \<Rightarrow> task_capability_requirements \<Rightarrow> int \<Rightarrow> string list" where
  "routing_missing p req required =
     (if context_window p < required then [''context_window''] else []) @
     (if requires_tools req \<and> \<not> supports_tools p then [''requires_tools''] else []) @
     (if requires_structured_output req \<and> \<not> supports_structured_output p
      then [''requires_structured_output''] else []) @
     (if requires_code_reasoning req \<and> \<not> supports_code_reasoning p
      then [''requires_code_reasoning''] else []) @
     (if requires_long_reasoning req \<and> \<not> supports_long_reasoning p
      then [''requires_long_reasoning''] else [])"

definition routing_cost :: "model_profile \<Rightarrow> int \<Rightarrow> int" where
  "routing_cost p tokens =
     (case cost_profile p of
        None \<Rightarrow> 1
      | Some c \<Rightarrow> fixed_call_cost_units c
          + (tokens * input_cost_units_per_1k_tokens c + 999) div 1000
          + (max_output_tokens p * output_cost_units_per_1k_tokens c + 999) div 1000)"

definition budget_feasible :: "snapshot \<Rightarrow> model_profile \<Rightarrow> int \<Rightarrow> budget_error + bool" where
  "budget_feasible sn p tokens =
     (if cost_profile p = None \<and>
         (limit_of (sn_budget sn) cost_units \<noteq> None \<or> limit_of (sn_budget sn) remote_model_calls \<noteq> None)
      then Inr False
      else case mk_usage (call_amounts (effective_is_remote p) tokens (max_output_tokens p)
                            (routing_cost p tokens)) False of
             Inl e \<Rightarrow> Inl e
           | Inr u \<Rightarrow> Inr (feasible sn u))"

section \<open>Routing\<close>

record routing_request =
  rr_requirements :: task_capability_requirements
  rr_context :: model_context_requirements
  rr_profiles :: "model_profile list"
  rr_preference :: model_preference
  rr_budget :: "snapshot option"
  rr_breakers :: "(string, breaker_snapshot) dict"

text \<open>The checks before the budget of one iteration of the loop.\<close>

definition admissible ::
  "routing_policy \<Rightarrow> routing_request \<Rightarrow> int \<Rightarrow> model_profile \<Rightarrow> model_profile \<Rightarrow> bool" where
  "admissible pol rr required initial p \<longleftrightarrow>
     preference_allows (rr_preference rr) p \<and>
     routing_missing p (rr_requirements rr) required = [] \<and>
     (adjustment initial p = ESCALATE_TO_REMOTE \<longrightarrow> allow_escalation pol) \<and>
     (adjustment initial p = ROUTE_DOWNGRADE_TO_LOCAL \<longrightarrow> allow_downgrade pol)"

definition mk_candidate ::
  "routing_request \<Rightarrow> model_profile \<Rightarrow> model_profile \<Rightarrow> model_routing_candidate" where
  "mk_candidate rr initial p =
     \<lparr>candidate_profile = p, candidate_breaker_key = effective_breaker_key p,
      candidate_adjustment = adjustment initial p,
      candidate_reason_code = the (routing_reason_code (adjustment initial p)),
      breaker_open_at_decision =
        some_and (map_of (rr_breakers rr) (effective_breaker_key p)) (\<lambda>sn. bs_state sn = CB_OPEN)\<rparr>"

fun route_loop ::
  "routing_policy \<Rightarrow> routing_request \<Rightarrow> int \<Rightarrow> model_profile \<Rightarrow> model_profile list
     \<Rightarrow> model_routing_candidate list \<Rightarrow> bool \<Rightarrow> routing_error + model_routing_candidate list \<times> bool" where
  "route_loop pol rr required initial [] acc downgrade_seen = Inr (acc, downgrade_seen)"
| "route_loop pol rr required initial (p # ps) acc downgrade_seen =
     (if \<not> admissible pol rr required initial p
      then route_loop pol rr required initial ps acc downgrade_seen
      else case (case rr_budget rr of
                   None \<Rightarrow> Inr True
                 | Some sn \<Rightarrow> budget_feasible sn p (estimated_input_tokens (rr_context rr))) of
             Inl e \<Rightarrow> Inl (RoutingUsageRejected e)
           | Inr False \<Rightarrow> route_loop pol rr required initial ps acc downgrade_seen
           | Inr True \<Rightarrow>
               route_loop pol rr required initial ps (acc @ [mk_candidate rr initial p])
                 (downgrade_seen \<or> adjustment initial p = ROUTE_DOWNGRADE_TO_LOCAL))"

definition route ::
  "routing_policy \<Rightarrow> model_selection_decision \<Rightarrow> routing_request
     \<Rightarrow> routing_error + model_routing_decision" where
  "route pol sel rr =
     (let required = required_context_window (rp_selection_policy pol)
                       (minimum_context_window (rr_context rr));
          decided = (\<lambda>initial cs disclosed confirm code.
            \<lparr>rd_capability_preferred = capability_preferred_profile_id sel,
             initial_selected_profile_id = initial, candidates = cs,
             rd_required_context_window = required, rd_quality_tradeoff_disclosed = disclosed,
             rd_confirmation_required = confirm, rd_reason_code = code\<rparr>)
      in case (if confirmation_required sel then None else selected_profile_id sel) of
           None \<Rightarrow> Inr (decided None [] False True ''ROUTING_CONFIRMATION_REQUIRED'')
         | Some initial \<Rightarrow>
             (let profile_map = dict_by profile_id (rr_profiles rr)
              in if length profile_map \<noteq> length (rr_profiles rr) then Inl DUPLICATE_PROFILE_ID
                 else case map_of profile_map initial of
                        None \<Rightarrow> Inl INITIAL_PROFILE_UNAVAILABLE
                      | Some ip \<Rightarrow>
                          (case route_loop pol rr required ip
                                  (ip # filter (\<lambda>p. profile_id p \<noteq> initial) (rr_profiles rr)) [] False of
                             Inl e \<Rightarrow> Inl e
                           | Inr (cs, downgrade_seen) \<Rightarrow>
                               if cs = [] then Inl NO_ROUTING_CANDIDATE
                               else if downgrade_seen \<and> require_confirmation_for_downgrade pol
                               then Inr (decided (Some initial) [] True True ''DOWNGRADE_CONFIRMATION_REQUIRED'')
                               else Inr (decided (Some initial) cs
                                      (quality_tradeoff_disclosed sel \<or> downgrade_seen) False
                                      ''ROUTING_READY''))))"

section \<open>The chain\<close>

lemma routing_missing_Nil_iff:
  "routing_missing p req required = [] \<longleftrightarrow> missing p req required = []"
  by (auto simp: routing_missing_def missing_def)

lemma adjustment_has_reason: "routing_reason_code (adjustment initial p) \<noteq> None"
  by (simp add: adjustment_def)

text \<open>What the budget says about a profile, an estimate that cannot be built counting as no.\<close>

definition within_budget :: "routing_request \<Rightarrow> model_profile \<Rightarrow> bool" where
  "within_budget rr p =
     (case rr_budget rr of
        None \<Rightarrow> True
      | Some sn \<Rightarrow> budget_feasible sn p (estimated_input_tokens (rr_context rr)) = Inr True)"

text \<open>The loop is a filter over the ordered profiles.\<close>

lemma route_loop_filter:
  "route_loop pol rr required initial ps acc seen = Inr (cs, seen') \<Longrightarrow>
     cs = acc @ map (mk_candidate rr initial)
       (filter (\<lambda>p. admissible pol rr required initial p \<and> within_budget rr p) ps) \<and>
     (seen' \<longleftrightarrow> seen \<or> (\<exists>p \<in> set ps. admissible pol rr required initial p \<and> within_budget rr p \<and>
        adjustment initial p = ROUTE_DOWNGRADE_TO_LOCAL))"
proof (induction ps arbitrary: acc seen)
  case (Cons p ps)
  show ?case
  proof (cases "admissible pol rr required initial p \<and> within_budget rr p")
    case True
    with Cons.prems have "route_loop pol rr required initial ps (acc @ [mk_candidate rr initial p])
        (seen \<or> adjustment initial p = ROUTE_DOWNGRADE_TO_LOCAL) = Inr (cs, seen')"
      by (auto simp: within_budget_def split: option.split_asm)
    from Cons.IH [OF this] True show ?thesis by auto
  next
    case False
    with Cons.prems have "route_loop pol rr required initial ps acc seen = Inr (cs, seen')"
      by (auto simp: within_budget_def split: if_split_asm option.split_asm sum.split_asm bool.split_asm)
    from Cons.IH [OF this] False show ?thesis by auto
  qed
qed simp

text \<open>
  C37. A ready routing decision lists, in this order, the initially selected profile and then the other
  profiles as they were given, exactly those among them that the preference allows, that can do
  the step, that the policy lets the chain escalate or downgrade to, and that the budget allows; no
  profile appears twice, and a downgrade in the chain is always disclosed.\<close>

theorem route_candidates_exact:
  assumes "route pol sel rr = Inr d" "\<not> rd_confirmation_required d"
    and "required = required_context_window (rp_selection_policy pol) (minimum_context_window (rr_context rr))"
  shows "\<exists>ip. ip \<in> set (rr_profiles rr) \<and> Some (profile_id ip) = selected_profile_id sel \<and>
    initial_selected_profile_id d = selected_profile_id sel \<and>
    map candidate_profile (candidates d) =
      filter (\<lambda>p. admissible pol rr required ip p \<and> within_budget rr p)
        (ip # filter (\<lambda>p. p \<noteq> ip) (rr_profiles rr)) \<and>
    candidates d \<noteq> [] \<and> distinct (map (profile_id \<circ> candidate_profile) (candidates d)) \<and>
    ((\<exists>c \<in> set (candidates d). candidate_adjustment c = ROUTE_DOWNGRADE_TO_LOCAL) \<longrightarrow>
       rd_quality_tradeoff_disclosed d)"
proof -
  obtain initial ip cs seen where sel: "selected_profile_id sel = Some initial"
    and len: "length (dict_by profile_id (rr_profiles rr)) = length (rr_profiles rr)"
    and ip: "map_of (dict_by profile_id (rr_profiles rr)) initial = Some ip"
    and loop: "route_loop pol rr required ip
      (ip # filter (\<lambda>p. profile_id p \<noteq> initial) (rr_profiles rr)) [] False = Inr (cs, seen)"
    and d: "cs \<noteq> []" "initial_selected_profile_id d = Some initial" "candidates d = cs"
      "rd_quality_tradeoff_disclosed d \<longleftrightarrow> quality_tradeoff_disclosed sel \<or> seen"
    using assms
    by (auto simp: route_def Let_def split: if_split_asm option.split_asm sum.split_asm prod.split_asm)
  have dist: "distinct (map profile_id (rr_profiles rr))" using len by (simp add: dict_by_length_iff)
  then have ip': "ip \<in> set (rr_profiles rr)" "profile_id ip = initial" using ip by (simp_all add: map_of_dict_by)
  have others: "filter (\<lambda>p. profile_id p \<noteq> initial) (rr_profiles rr) = filter (\<lambda>p. p \<noteq> ip) (rr_profiles rr)"
  proof (rule filter_cong [OF refl])
    fix p assume "p \<in> set (rr_profiles rr)"
    with ip' dist show "(profile_id p \<noteq> initial) = (p \<noteq> ip)"
      by (auto simp: distinct_map inj_on_def)
  qed
  let ?ps = "ip # filter (\<lambda>p. p \<noteq> ip) (rr_profiles rr)"
  let ?ok = "\<lambda>p. admissible pol rr required ip p \<and> within_budget rr p"
  note spec = route_loop_filter [OF loop [unfolded others], THEN conjunct1]
    route_loop_filter [OF loop [unfolded others], THEN conjunct2]
  have cands: "map candidate_profile (candidates d) = filter ?ok ?ps"
    unfolding d(3) spec(1) by (simp add: mk_candidate_def comp_def)
  have "inj_on profile_id (set (rr_profiles rr))" using dist by (simp add: distinct_map)
  then have "distinct (map profile_id ?ps)"
    using dist ip'(1) by (auto simp: distinct_map inj_on_def)
  then have "distinct (map profile_id (filter ?ok ?ps))" by (rule distinct_map_filter)
  then have "distinct (map (profile_id \<circ> candidate_profile) (candidates d))"
    unfolding cands [symmetric] by (simp add: comp_def)
  moreover have "rd_quality_tradeoff_disclosed d"
    if "\<exists>c \<in> set (candidates d). candidate_adjustment c = ROUTE_DOWNGRADE_TO_LOCAL"
    using that spec(2) by (auto simp: d spec(1) mk_candidate_def split: if_split_asm)
  ultimately show ?thesis
    using ip' sel d cands by (intro exI [of _ ip]) auto
qed

section \<open>Concrete chains\<close>

definition default_routing_policy :: routing_policy where
  "default_routing_policy =
     \<lparr>allow_escalation = True, allow_downgrade = True, require_confirmation_for_downgrade = False,
      rp_selection_policy = default_policy\<rparr>"

definition sample_routing :: "model_profile list \<Rightarrow> int \<Rightarrow> snapshot option \<Rightarrow> routing_request" where
  "sample_routing ps n sn =
     \<lparr>rr_requirements = sample_requirements True 1, rr_context = sample_context n,
      rr_profiles = ps, rr_preference = AUTO, rr_budget = sn, rr_breakers = []\<rparr>"

lemma sample_route:
  "map_sum id (\<lambda>d. (map (profile_id \<circ> candidate_profile) (candidates d), rd_confirmation_required d))
     (route default_routing_policy (decision REMOTE_ADVANCED LONG_REASONING_REQUIRED False)
       (sample_routing [sample_profile LOCAL_FAST 4096, sample_profile REMOTE_ADVANCED 32768] 2000 None)) =
   Inr ([REMOTE_ADVANCED, LOCAL_FAST], False)"
  by code_simp

theorem route_candidates_exact_witness:
  "\<exists>d. route default_routing_policy (decision REMOTE_ADVANCED LONG_REASONING_REQUIRED False)
     (sample_routing [sample_profile LOCAL_FAST 4096, sample_profile REMOTE_ADVANCED 32768] 2000 None) = Inr d \<and>
   candidates d \<noteq> [] \<and> distinct (map (profile_id \<circ> candidate_profile) (candidates d))"
proof -
  let ?r = "route default_routing_policy (decision REMOTE_ADVANCED LONG_REASONING_REQUIRED False)
     (sample_routing [sample_profile LOCAL_FAST 4096, sample_profile REMOTE_ADVANCED 32768] 2000 None)"
  obtain d where d: "?r = Inr d" "\<not> rd_confirmation_required d"
    using sample_route by (cases ?r) auto
  from route_candidates_exact [OF d refl] d(1) show ?thesis by blast
qed

text \<open>A profile whose output is expensive, and a budget that leaves ten cost units.\<close>

definition costly_profile :: model_profile where
  "costly_profile = (sample_profile LOCAL_FAST 4096)\<lparr>cost_profile :=
     Some \<lparr>cp_profile_id = LOCAL_FAST, cp_is_remote = False, fixed_call_cost_units = 0,
           input_cost_units_per_1k_tokens = 1, output_cost_units_per_1k_tokens = 100,
           estimated_latency_ms = 0\<rparr>\<rparr>"

definition ten_units :: snapshot where
  "ten_units =
     \<lparr>sn_budget = \<lparr>limit_of = (\<lambda>d. if d = cost_units then Some 10 else None),
                    max_elapsed_seconds = None, max_concurrency = None\<rparr>,
      sn_committed = zero_usage, sn_reserved = zero_usage,
      sn_remaining = \<lparr>amount = (\<lambda>d. if d = cost_units then 10 else 0), allow_independent_total = True\<rparr>,
      sn_elapsed = 0, sn_remaining_time = None, sn_active = 0, sn_exhausted = [],
      sn_generated_at = DT (Some 0) 0\<rparr>"

lemma window_100: "required_context_window default_policy 100 = 111"
  by code_simp

lemma costly_estimates:
  "estimated_usage costly_profile 100 =
     Inr \<lparr>amount = call_amounts False 100 512 1, allow_independent_total = False\<rparr>"
  "feasible ten_units \<lparr>amount = call_amounts False 100 512 1, allow_independent_total = False\<rparr>"
  "budget_feasible ten_units costly_profile 100 = Inr False"
proof -
  have remote: "\<not> effective_is_remote costly_profile"
    by (simp add: costly_profile_def sample_profile_def effective_is_remote_def)
  have costs: "cost costly_profile 100 = 1" "routing_cost costly_profile 100 = 53"
    "max_output_tokens costly_profile = 512" "cost_profile costly_profile \<noteq> None"
    "(case cost_profile costly_profile of None \<Rightarrow> False | Some c \<Rightarrow> cp_is_remote c) = False"
    by (simp_all add: costly_profile_def sample_profile_def cost_def routing_cost_def)
  have mk: "mk_usage (call_amounts False 100 512 units) False =
      Inr \<lparr>amount = call_amounts False 100 512 units, allow_independent_total = False\<rparr>" if "0 \<le> units" for units
    using that by (simp add: mk_usage_def usage_check_def call_amounts_def dimensions_def)
  show "estimated_usage costly_profile 100 =
     Inr \<lparr>amount = call_amounts False 100 512 1, allow_independent_total = False\<rparr>"
    unfolding estimated_usage_def costs by (rule mk) simp
  show "feasible ten_units \<lparr>amount = call_amounts False 100 512 1, allow_independent_total = False\<rparr>"
    by (simp add: feasible_def ten_units_def dimensions_def call_amounts_def)
  show "budget_feasible ten_units costly_profile 100 = Inr False"
    using remote costs(4) mk [of 53]
    by (simp add: budget_feasible_def costs feasible_def ten_units_def dimensions_def call_amounts_def)
qed


end
