(* ===== verification/Retry.thy ===== *)
theory Retry
  imports Model_Routing
begin

text \<open>
  \<^verbatim>\<open>core/runtime/retry.py\<close>: the retry policy, its decisions, the cancellable sleep and the
  retry loop. Durations are real numbers: the source only compares, scales and adds them, and no
  decision rests on the last bit. What the loop does not own is its environment: the attempt
  callback, the cancellation check, the random source and the sleeper are arguments. A loop that
  never ends would be \<open>None\<close>.
\<close>

section \<open>Policy\<close>

datatype jitter_mode = JITTER_NONE | FULL | EQUAL
datatype rate_limit_recovery_mode = FALLBACK_FIRST | RETRY_CURRENT_FIRST | STOP
datatype retryable_operation_kind = KIND_MODEL | KIND_TOOL | KIND_RAG
datatype operation_idempotency =
  READ_ONLY | IDEMPOTENT | IDEMPOTENT_WITH_KEY | NON_IDEMPOTENT | UNKNOWN_IDEMPOTENCY

record retry_policy =
  max_attempts :: int
  base_delay_seconds :: real
  max_delay_seconds :: real
  backoff_multiplier :: real
  jitter_mode :: jitter_mode
  jitter_ratio :: real
  minimum_attempt_seconds :: real
  retryable_failure_categories :: "model_failure_category list"
  rate_limit_recovery_mode :: rate_limit_recovery_mode

definition default_retry_policy :: retry_policy where
  "default_retry_policy =
     \<lparr>max_attempts = 3, base_delay_seconds = 1 / 4, max_delay_seconds = 2, backoff_multiplier = 2,
      jitter_mode = JITTER_NONE, jitter_ratio = 1, minimum_attempt_seconds = 1 / 10,
      retryable_failure_categories = [TRANSIENT_PROVIDER_FAILURE, PROVIDER_TIMEOUT, RATE_LIMITED],
      rate_limit_recovery_mode = FALLBACK_FIRST\<rparr>"

datatype retry_error =
    MaxAttemptsInvalid | RetryNumberNegative string | MaxDelayBelowBase | MultiplierBelowOne
  | JitterRatioRange | RetryIndexInvalid

definition retry_policy_check :: "retry_policy \<Rightarrow> retry_error option" where
  "retry_policy_check p = first_error
     [(max_attempts p < 1, MaxAttemptsInvalid),
      (base_delay_seconds p < 0, RetryNumberNegative ''base_delay_seconds''),
      (max_delay_seconds p < 0, RetryNumberNegative ''max_delay_seconds''),
      (backoff_multiplier p < 0, RetryNumberNegative ''backoff_multiplier''),
      (jitter_ratio p < 0, RetryNumberNegative ''jitter_ratio''),
      (minimum_attempt_seconds p < 0, RetryNumberNegative ''minimum_attempt_seconds''),
      (max_delay_seconds p < base_delay_seconds p, MaxDelayBelowBase),
      (backoff_multiplier p < 1, MultiplierBelowOne),
      (\<not> (0 \<le> jitter_ratio p \<and> jitter_ratio p \<le> 1), JitterRatioRange)]"

text \<open>The bounded iteration of \<^verbatim>\<open>raw_delay\<close>.\<close>

fun raw_delay_loop :: "retry_policy \<Rightarrow> nat \<Rightarrow> real \<Rightarrow> real" where
  "raw_delay_loop p 0 value = min value (max_delay_seconds p)"
| "raw_delay_loop p (Suc n) value =
     (if max_delay_seconds p / backoff_multiplier p \<le> value then max_delay_seconds p
      else raw_delay_loop p n (value * backoff_multiplier p))"

definition raw_delay :: "retry_policy \<Rightarrow> int \<Rightarrow> retry_error + real" where
  "raw_delay p retry_index =
     (if retry_index < 1 then Inl RetryIndexInvalid
      else Inr (raw_delay_loop p (nat (retry_index - 1)) (base_delay_seconds p)))"

text \<open>The random source is its \<^verbatim>\<open>uniform\<close> method.\<close>

definition delay :: "retry_policy \<Rightarrow> int \<Rightarrow> (real \<Rightarrow> real \<Rightarrow> real) \<Rightarrow> retry_error + real" where
  "delay p retry_index uniform =
     (case raw_delay p retry_index of
        Inl e \<Rightarrow> Inl e
      | Inr raw \<Rightarrow>
          Inr (case jitter_mode p of
                 JITTER_NONE \<Rightarrow> raw
               | FULL \<Rightarrow> min raw (uniform 0 (raw * jitter_ratio p))
               | EQUAL \<Rightarrow> min raw (raw / 2 + uniform 0 (raw / 2 * jitter_ratio p))))"

record retry_decision =
  should_retry :: bool
  retry_reason_code :: string
  rd_retry_index :: int
  delay_seconds :: real
  required_budget :: int
  required_time_seconds :: real

definition retry_allowed_by_idempotency ::
  "retryable_operation_kind \<Rightarrow> operation_idempotency \<Rightarrow> string option \<Rightarrow> bool \<Rightarrow> bool" where
  "retry_allowed_by_idempotency kind idem key side_effect_committed =
     (if side_effect_committed then False
      else if kind = KIND_MODEL then True
      else if idem \<in> {READ_ONLY, IDEMPOTENT} then True
      else idem = IDEMPOTENT_WITH_KEY \<and> some_and key (\<lambda>k. \<not> blank k))"

text \<open>\<^verbatim>\<open>estimated or minimum\<close>: an estimate of zero counts as none.\<close>

definition or_minimum :: "retry_policy \<Rightarrow> real option \<Rightarrow> real" where
  "or_minimum p est =
     (case est of
        None \<Rightarrow> minimum_attempt_seconds p
      | Some s \<Rightarrow> if s = 0 then minimum_attempt_seconds p else s)"

definition decide ::
  "retry_policy \<Rightarrow> (real \<Rightarrow> real \<Rightarrow> real) \<Rightarrow> model_failure_category \<Rightarrow> int \<Rightarrow> bool \<Rightarrow> real option
     \<Rightarrow> bool \<Rightarrow> real option \<Rightarrow> retry_error + retry_decision" where
  "decide p uniform category retry_index output_started remaining has_fallback est =
     (case (if 0 < retry_index then delay p retry_index uniform else Inr 0) of
        Inl e \<Rightarrow> Inl e
      | Inr d \<Rightarrow>
          (let required = d + max (minimum_attempt_seconds p) (or_minimum p est);
               allowed = (category \<in> set (retryable_failure_categories p) \<and>
                          retry_index < max_attempts p \<and> \<not> output_started);
               allowed1 = (if category = RATE_LIMITED
                           then allowed \<and> rate_limit_recovery_mode p \<noteq> STOP \<and>
                                \<not> (has_fallback \<and> rate_limit_recovery_mode p = FALLBACK_FIRST)
                           else allowed);
               late = some_and remaining (\<lambda>r. r \<le> required)
           in Inr \<lparr>should_retry = (allowed1 \<and> \<not> late),
                   retry_reason_code =
                     (if late then ''RETRY_DEADLINE_INSUFFICIENT''
                      else if \<not> allowed1 then ''RETRY_NOT_ALLOWED'' else ''RETRY_ALLOWED''),
                   rd_retry_index = retry_index, delay_seconds = d, required_budget = 1,
                   required_time_seconds = required\<rparr>))"

section \<open>Sleeping\<close>

text \<open>
  \<^verbatim>\<open>CancellableRetrySleeper.sleep\<close>. What happens outside: whether the run is cancelled
  before, whether the cancellation finishes the wait, whether the sleep itself raised, and whether the
  run is cancelled once the wait is over. The result comes with the time asked of the sleeper.
\<close>

datatype sleep_result = SleepDone | SleepCancelled | SleepDeadlineExceeded | SleepRaised

record sleep_env =
  cancelled_before :: bool
  cancel_wins :: bool
  delay_raises :: bool
  cancelled_after :: bool

definition cancellable_sleep :: "sleep_env \<Rightarrow> real \<Rightarrow> real option \<Rightarrow> sleep_result \<times> real option" where
  "cancellable_sleep env seconds remaining =
     (if cancelled_before env then (SleepCancelled, None)
      else if some_and remaining (\<lambda>r. r \<le> 0) then (SleepDeadlineExceeded, None)
      else let asked = (case remaining of None \<Rightarrow> seconds | Some r \<Rightarrow> min seconds r)
           in if cancel_wins env then (SleepCancelled, Some asked)
              else if delay_raises env then (SleepRaised, Some asked)
              else if some_and remaining (\<lambda>r. r < seconds) then (SleepDeadlineExceeded, Some asked)
              else if cancelled_after env then (SleepCancelled, Some asked)
              else (SleepDone, Some asked))"

section \<open>The retry loop\<close>

datatype ('x, 'r) attempt_outcome = Returned 'r | AsyncCancelled | Failed 'x
datatype ('x, 'r) retry_result = RetryReturned 'r | RetryAsyncCancelled | RetryRaised 'x
datatype retry_event = Attempted nat | Slept real

text \<open>
  The environment of one execution: what the \<open>i\<close>-th attempt does, what the \<open>n\<close>-th cancellation
  check raises, the two callbacks, and what the sleep after the \<open>i\<close>-th attempt raises.
\<close>

record ('x, 'r) retry_env =
  attempt :: "nat \<Rightarrow> ('x, 'r) attempt_outcome"
  check_cancelled :: "nat \<Rightarrow> 'x option"
  category_of :: "'x \<Rightarrow> model_failure_category"
  decider :: "model_failure_category \<Rightarrow> nat \<Rightarrow> retry_decision"
  sleep_raises :: "nat \<Rightarrow> 'x option"

partial_function (option) retry_loop ::
  "('x, 'r) retry_env \<Rightarrow> nat \<Rightarrow> nat \<Rightarrow> retry_event list \<Rightarrow> (('x, 'r) retry_result \<times> retry_event list) option"
where
  "retry_loop env i c tr =
     (case check_cancelled env c of
        Some x \<Rightarrow> Some (RetryRaised x, tr)
      | None \<Rightarrow>
          (case attempt env i of
             Returned r \<Rightarrow> Some (RetryReturned r, tr @ [Attempted i])
           | AsyncCancelled \<Rightarrow> Some (RetryAsyncCancelled, tr @ [Attempted i])
           | Failed x \<Rightarrow>
               (case check_cancelled env (c + 1) of
                  Some y \<Rightarrow> Some (RetryRaised y, tr @ [Attempted i])
                | None \<Rightarrow>
                    (let d = decider env (category_of env x) (i + 1)
                     in if \<not> should_retry d then Some (RetryRaised x, tr @ [Attempted i])
                        else case check_cancelled env (c + 2) of
                          Some y \<Rightarrow> Some (RetryRaised y, tr @ [Attempted i])
                        | None \<Rightarrow>
                            (case sleep_raises env i of
                               Some y \<Rightarrow> Some (RetryRaised y, tr @ [Attempted i, Slept (delay_seconds d)])
                             | None \<Rightarrow>
                                 (case check_cancelled env (c + 3) of
                                    Some y \<Rightarrow>
                                      Some (RetryRaised y, tr @ [Attempted i, Slept (delay_seconds d)])
                                  | None \<Rightarrow>
                                      retry_loop env (i + 1) (c + 4)
                                        (tr @ [Attempted i, Slept (delay_seconds d)])))))))"

declare retry_loop.simps [code]

definition execute_async ::
  "('x, 'r) retry_env \<Rightarrow> (('x, 'r) retry_result \<times> retry_event list) option" where
  "execute_async env = retry_loop env 0 0 []"

section \<open>Delays\<close>

lemma policy_check_iff:
  "retry_policy_check p = None \<longleftrightarrow>
     1 \<le> max_attempts p \<and> 0 \<le> base_delay_seconds p \<and> base_delay_seconds p \<le> max_delay_seconds p \<and>
     1 \<le> backoff_multiplier p \<and> 0 \<le> jitter_ratio p \<and> jitter_ratio p \<le> 1 \<and>
     0 \<le> minimum_attempt_seconds p"
  by (auto simp: retry_policy_check_def)

lemma raw_delay_loop_closed:
  assumes "0 \<le> value" "0 \<le> max_delay_seconds p" "1 \<le> backoff_multiplier p"
  shows "raw_delay_loop p n value = min (value * backoff_multiplier p ^ n) (max_delay_seconds p)"
  using assms(1)
proof (induction n arbitrary: "value")
  case (Suc n)
  let ?m = "backoff_multiplier p"
  show ?case
  proof (cases "max_delay_seconds p / ?m \<le> value")
    case True
    then have "max_delay_seconds p \<le> value * ?m" using assms(3) by (simp add: field_simps)
    also have "\<dots> \<le> value * ?m * ?m ^ n"
      using mult_left_mono [of 1 "?m ^ n" "value * ?m"] Suc.prems assms(3) by simp
    finally show ?thesis using True by (simp add: ac_simps)
  next
    case False
    with Suc assms(3) show ?thesis by (simp add: ac_simps)
  qed
qed simp



section \<open>Decisions\<close>

lemma delay_le_max:
  assumes "retry_policy_check p = None" "0 < i"
  shows "\<exists>d. delay p i uniform = Inr d \<and> d \<le> max_delay_seconds p"
proof -
  have "0 \<le> base_delay_seconds p" "0 \<le> max_delay_seconds p" "1 \<le> backoff_multiplier p"
    using assms(1) by (auto simp: policy_check_iff)
  then have "\<exists>raw \<le> max_delay_seconds p. raw_delay p i = Inr raw"
    using assms(2) by (auto simp: raw_delay_def raw_delay_loop_closed)
  then show ?thesis
    by (auto simp: delay_def min_def split: jitter_mode.split)
qed

lemma decide_total:
  assumes "retry_policy_check p = None"
  shows "\<exists>d. decide p uniform category i output_started remaining has_fallback est = Inr d \<and>
    delay_seconds d \<le> max_delay_seconds p \<and> (should_retry d \<longrightarrow> i < max_attempts p)"
proof -
  have "0 \<le> max_delay_seconds p" using assms by (auto simp: policy_check_iff)
  moreover obtain x where "0 < i \<Longrightarrow> delay p i uniform = Inr x" "0 < i \<Longrightarrow> x \<le> max_delay_seconds p"
    using delay_le_max [OF assms, of i uniform] by blast
  ultimately show ?thesis by (simp add: decide_def Let_def)
qed

section \<open>The loop ends\<close>

primrec attempts_of :: "retry_event list \<Rightarrow> nat list" where
  "attempts_of [] = []"
| "attempts_of (e # es) = (case e of Attempted i \<Rightarrow> i # attempts_of es | Slept d \<Rightarrow> attempts_of es)"

primrec slept_of :: "retry_event list \<Rightarrow> real list" where
  "slept_of [] = []"
| "slept_of (e # es) = (case e of Attempted i \<Rightarrow> slept_of es | Slept d \<Rightarrow> d # slept_of es)"

lemma attempts_of_append [simp]: "attempts_of (xs @ ys) = attempts_of xs @ attempts_of ys"
  by (induction xs) (auto split: retry_event.split)

lemma slept_of_append [simp]: "slept_of (xs @ ys) = slept_of xs @ slept_of ys"
  by (induction xs) (auto split: retry_event.split)

text \<open>What the trace of a loop that started with attempt \<open>i\<close> looks like.\<close>

definition loop_trace :: "nat \<Rightarrow> nat \<Rightarrow> real \<Rightarrow> retry_event list \<Rightarrow> bool" where
  "loop_trace N i D tr \<longleftrightarrow> (\<exists>k. attempts_of tr = [i..<i + k] \<and> i + k \<le> N \<and>
     length (slept_of tr) < N - i \<and> (\<forall>d \<in> set (slept_of tr). d \<le> D))"

lemma loop_trace_stop:
  "i < N \<Longrightarrow> loop_trace N i D []"
  "i < N \<Longrightarrow> loop_trace N i D [Attempted i]"
  "Suc i < N \<Longrightarrow> d \<le> D \<Longrightarrow> loop_trace N i D [Attempted i, Slept d]"
  by (auto simp: loop_trace_def intro: exI [of _ 0] exI [of _ 1])

lemma loop_trace_step:
  assumes "loop_trace N (Suc i) D tr" "d \<le> D" "Suc i < N"
  shows "loop_trace N i D ([Attempted i, Slept d] @ tr)"
proof -
  obtain k where k: "attempts_of tr = [Suc i..<Suc i + k]" "Suc i + k \<le> N"
    using assms(1) by (auto simp: loop_trace_def)
  have "i # [Suc i..<Suc (i + k)] = [i..<i + Suc k]" by (simp add: upt_conv_Cons)
  with assms k show ?thesis unfolding loop_trace_def by (intro exI [of _ "Suc k"]) auto
qed

lemma retry_loop_ends:
  assumes "\<And>cat j. should_retry (decider env cat j) \<Longrightarrow> j < N"
    and "\<And>cat j. delay_seconds (decider env cat j) \<le> D"
    and "i < N"
  shows "\<exists>res tr'. retry_loop env i c tr = Some (res, tr @ tr') \<and> loop_trace N i D tr'"
  using assms(3)
proof (induction "N - i" arbitrary: i c tr)
  case (Suc m)
  note step = loop_trace_stop(1,2) [OF Suc.prems, of D]
  let ?d = "\<lambda>x. decider env (category_of env x) (i + 1)"
  have last: "\<exists>res tr'. Some (res0, tr @ tr0) = Some (res, tr @ tr') \<and> loop_trace N i D tr'"
    if "loop_trace N i D tr0" for res0 :: "('a, 'b) retry_result" and tr0
    using that by blast
  show ?case
  proof (cases "\<exists>x. check_cancelled env c = None \<and> attempt env i = Failed x \<and>
      check_cancelled env (c + 1) = None \<and> should_retry (?d x) \<and> check_cancelled env (c + 2) = None")
    case False
    then show ?thesis
      using step(1,2)
      by (subst retry_loop.simps)
         (auto simp: Let_def split: option.split attempt_outcome.split intro: last)
  next
    case True
    then obtain x where x: "check_cancelled env c = None" "attempt env i = Failed x"
      "check_cancelled env (c + 1) = None" "should_retry (?d x)" "check_cancelled env (c + 2) = None" by blast
    then have lt: "Suc i < N" using assms(1) by force
    let ?tr = "[Attempted i, Slept (delay_seconds (?d x))]"
    have m: "m = N - (i + 1)" using Suc.hyps(2) by simp
    have le: "delay_seconds (?d x) \<le> D" by (rule assms(2))
    obtain res tr' where IH: "retry_loop env (i + 1) (c + 4) (tr @ ?tr) = Some (res, (tr @ ?tr) @ tr')"
      "loop_trace N (Suc i) D tr'"
      using Suc.hyps(1) [of "i + 1" "c + 4" "tr @ ?tr"] m lt by auto
    have "loop_trace N i D (?tr @ tr')" by (rule loop_trace_step [OF IH(2) le lt])
    then show ?thesis
      using x IH(1) loop_trace_stop(3) [OF lt le]
      by (subst retry_loop.simps) (auto simp: Let_def split: option.split intro: last)
  qed
qed simp

text \<open>
  C35. With the decisions of a valid policy the retry loop always ends, whatever the attempts, the
  cancellations and the sleeper do: it makes the attempts 0, 1, ... in order, at most
  \<open>max_attempts\<close> of them, sleeps less often than that and never longer than
  \<open>max_delay_seconds\<close> at a time.\<close>

theorem execute_async_ends:
  assumes "retry_policy_check p = None"
    and "\<And>cat i. \<exists>started remaining fallback est.
      decide p uniform cat (int i) started remaining fallback est = Inr (decider env cat i)"
  shows "\<exists>res tr k. execute_async env = Some (res, tr) \<and> attempts_of tr = [0..<k] \<and>
    int k \<le> max_attempts p \<and> int (length (slept_of tr)) < max_attempts p \<and>
    (\<forall>d \<in> set (slept_of tr). d \<le> max_delay_seconds p)"
proof -
  have N: "0 < nat (max_attempts p)" using assms(1) by (auto simp: policy_check_iff)
  have dec: "should_retry (decider env cat j) \<Longrightarrow> j < nat (max_attempts p)"
    "delay_seconds (decider env cat j) \<le> max_delay_seconds p" for cat j
  proof -
    obtain started remaining fallback est where
      d: "decide p uniform cat (int j) started remaining fallback est = Inr (decider env cat j)"
      using assms(2) by blast
    from decide_total [OF assms(1), of uniform cat "int j" started remaining fallback est] d
    show "should_retry (decider env cat j) \<Longrightarrow> j < nat (max_attempts p)"
      "delay_seconds (decider env cat j) \<le> max_delay_seconds p" by auto
  qed
  have "\<exists>res tr. retry_loop env 0 0 [] = Some (res, [] @ tr) \<and>
      loop_trace (nat (max_attempts p)) 0 (max_delay_seconds p) tr"
    by (rule retry_loop_ends) (use dec N in blast)+
  then obtain res tr where "execute_async env = Some (res, tr)"
    "loop_trace (nat (max_attempts p)) 0 (max_delay_seconds p) tr"
    unfolding execute_async_def by auto
  then show ?thesis unfolding loop_trace_def by force
qed

text \<open>A provider that times out on every attempt.\<close>

definition failing_env :: "(model_failure_category, unit) retry_env" where
  "failing_env =
     \<lparr>attempt = (\<lambda>i. Failed PROVIDER_TIMEOUT), check_cancelled = (\<lambda>n. None), category_of = (\<lambda>x. x),
      decider = (\<lambda>cat i. case decide default_retry_policy (\<lambda>lo hi. lo) cat (int i) False None False None of
                   Inl e \<Rightarrow> undefined | Inr d \<Rightarrow> d),
      sleep_raises = (\<lambda>i. None)\<rparr>"

theorem execute_async_ends_witness:
  "\<exists>res tr k. execute_async failing_env = Some (res, tr) \<and> attempts_of tr = [0..<k] \<and> int k \<le> 3"
proof -
  have check: "retry_policy_check default_retry_policy = None"
    by (simp add: policy_check_iff default_retry_policy_def)
  have "\<exists>started remaining fallback est.
      decide default_retry_policy (\<lambda>lo hi. lo) cat (int i) started remaining fallback est =
        Inr (decider failing_env cat i)" for cat i
    using decide_total [OF check, of "\<lambda>lo hi. lo" cat "int i" False None False None]
    by (intro exI [of _ False] exI [of _ None]) (auto simp: failing_env_def)
  from execute_async_ends [OF check this] show ?thesis
    by (auto simp: default_retry_policy_def)
qed

end
