(* ===== verification/Run_Control.thy ===== *)
theory Run_Control
  imports Runtime_Prelude
begin

text \<open>
  \<^verbatim>\<open>core/runtime/run_control.py\<close>: durable ownership of a Run by lease and fencing token, the
  cancel command, and the closing of the Run. The two tables (\<^verbatim>\<open>RunControlRow\<close> and
  \<^verbatim>\<open>RunControlCommandRow\<close> of \<^verbatim>\<open>core/persistence/models.py\<close>) are dictionaries keyed by
  run id; every method is one transaction, serialised per Run by the advisory lock and the row lock,
  and an exception rolls it back. The database clock \<^verbatim>\<open>now()\<close> is an argument of each
  transaction; nothing is assumed about how the readings of different transactions compare.
\<close>

section \<open>Tables\<close>

datatype control_state = RC_ACTIVE | RC_CLOSED

record run_control_row =
  rc_owner_id :: "string option"
  rc_lease_until :: "int option"
  rc_fencing_token :: int
  rc_state :: control_state
  rc_version :: int
  rc_cancel_command_id :: "string option"
  rc_cancel_reason :: "string option"
  rc_cancel_requested_at :: "int option"
  rc_terminal_sequence :: "int option"
  rc_created_at :: int
  rc_updated_at :: int

record run_control_command_row =
  cmd_id :: string
  cmd_reason :: string
  cmd_created_at :: int

record control_db =
  controls :: "(string, run_control_row) dict"
  commands :: "(string, run_control_command_row) dict"

record run_lease =
  lease_run_id :: string
  lease_owner_id :: string
  lease_until :: int
  lease_fencing_token :: int
  lease_version :: int

record cancel_intent =
  ci_run_id :: string
  ci_command_id :: string
  ci_reason :: string
  ci_created_at :: int

datatype control_error =
    IdentityInvalid | OwnershipLost | RunControlConflict | IntegrityViolation | AppendFailed

section \<open>Operations\<close>

text \<open>A row with the server defaults of the table.\<close>

definition new_control_row :: "string option \<Rightarrow> int \<Rightarrow> int \<Rightarrow> run_control_row" where
  "new_control_row owner token now =
     \<lparr>rc_owner_id = owner, rc_lease_until = None, rc_fencing_token = token, rc_state = RC_ACTIVE,
      rc_version = 1, rc_cancel_command_id = None, rc_cancel_reason = None,
      rc_cancel_requested_at = None, rc_terminal_sequence = None, rc_created_at = now,
      rc_updated_at = now\<rparr>"

definition set_control :: "control_db \<Rightarrow> string \<Rightarrow> run_control_row \<Rightarrow> control_db" where
  "set_control db run row = db\<lparr>controls := AList.update run row (controls db)\<rparr>"

text \<open>\<^verbatim>\<open>_lease\<close>; the row has an owner and a deadline wherever it is called.\<close>

definition lease_of :: "string \<Rightarrow> string \<Rightarrow> run_control_row \<Rightarrow> run_lease" where
  "lease_of run owner row =
     \<lparr>lease_run_id = run, lease_owner_id = owner, lease_until = the (rc_lease_until row),
      lease_fencing_token = rc_fencing_token row, lease_version = rc_version row\<rparr>"

definition renew_locked :: "int \<Rightarrow> run_control_row \<Rightarrow> string \<Rightarrow> int \<Rightarrow> int \<Rightarrow> run_control_row option" where
  "renew_locked lease_seconds row owner token now =
     (if rc_owner_id row \<noteq> Some owner \<or> rc_fencing_token row \<noteq> token then None
      else if some_and (rc_lease_until row) (\<lambda>t. now < t)
      then Some (row\<lparr>rc_lease_until := Some (now + lease_seconds), rc_version := rc_version row + 1,
                     rc_updated_at := now\<rparr>)
      else None)"

definition takeover_locked :: "int \<Rightarrow> run_control_row \<Rightarrow> string \<Rightarrow> int \<Rightarrow> run_control_row option" where
  "takeover_locked lease_seconds row owner now =
     (if rc_state row = RC_ACTIVE \<and>
         (rc_owner_id row = None \<or> (case rc_lease_until row of None \<Rightarrow> True | Some t \<Rightarrow> t \<le> now))
      then Some (row\<lparr>rc_owner_id := Some owner, rc_fencing_token := rc_fencing_token row + 1,
                     rc_lease_until := Some (now + lease_seconds), rc_version := rc_version row + 1,
                     rc_updated_at := now\<rparr>)
      else None)"

definition claim ::
  "int \<Rightarrow> control_db \<Rightarrow> string \<Rightarrow> string \<Rightarrow> int \<Rightarrow> (control_error + run_lease) \<times> control_db" where
  "claim lease_seconds db run owner now =
     (if blank run \<or> blank owner then (Inl IdentityInvalid, db)
      else let grant = (\<lambda>row. (Inr (lease_of run owner row), set_control db run row))
           in case map_of (controls db) run of
                None \<Rightarrow> grant ((new_control_row (Some owner) 1 now)\<lparr>rc_lease_until := Some (now + lease_seconds)\<rparr>)
              | Some row \<Rightarrow>
                  if rc_state row = RC_CLOSED then (Inl RunControlConflict, db)
                  else if rc_owner_id row = Some owner \<and> rc_lease_until row \<noteq> None then
                    (case renew_locked lease_seconds row owner (rc_fencing_token row) now of
                       Some row' \<Rightarrow> grant row'
                     | None \<Rightarrow>
                         (case takeover_locked lease_seconds row owner now of
                            Some row' \<Rightarrow> grant row'
                          | None \<Rightarrow> (Inl OwnershipLost, db)))
                  else
                    (case takeover_locked lease_seconds row owner now of
                       Some row' \<Rightarrow> grant row'
                     | None \<Rightarrow> (Inl RunControlConflict, db)))"

definition validate_lease :: "run_lease \<Rightarrow> control_error option" where
  "validate_lease l =
     (if blank (lease_run_id l) \<or> blank (lease_owner_id l) then Some IdentityInvalid else None)"

text \<open>The row a fenced statement finds: same run, owner and token, still ACTIVE, not expired.\<close>

definition current_row :: "control_db \<Rightarrow> run_lease \<Rightarrow> int \<Rightarrow> run_control_row option" where
  "current_row db l now =
     (case map_of (controls db) (lease_run_id l) of
        None \<Rightarrow> None
      | Some row \<Rightarrow>
          if rc_owner_id row = Some (lease_owner_id l) \<and> rc_fencing_token row = lease_fencing_token l \<and>
             rc_state row = RC_ACTIVE \<and> some_and (rc_lease_until row) (\<lambda>t. now < t)
          then Some row else None)"

definition renew ::
  "int \<Rightarrow> control_db \<Rightarrow> run_lease \<Rightarrow> int \<Rightarrow> (control_error + run_lease) \<times> control_db" where
  "renew lease_seconds db l now =
     (case validate_lease l of
        Some e \<Rightarrow> (Inl e, db)
      | None \<Rightarrow>
          (case current_row db l now of
             None \<Rightarrow> (Inl OwnershipLost, db)
           | Some row \<Rightarrow>
               (let row' = row\<lparr>rc_lease_until := Some (now + lease_seconds),
                               rc_version := rc_version row + 1, rc_updated_at := now\<rparr>
                in (Inr (lease_of (lease_run_id l) (lease_owner_id l) row'),
                    set_control db (lease_run_id l) row'))))"

definition release_lease :: "control_db \<Rightarrow> run_lease \<Rightarrow> int \<Rightarrow> (control_error + bool) \<times> control_db" where
  "release_lease db l now =
     (case validate_lease l of
        Some e \<Rightarrow> (Inl e, db)
      | None \<Rightarrow>
          (case map_of (controls db) (lease_run_id l) of
             None \<Rightarrow> (Inr False, db)
           | Some row \<Rightarrow>
               if rc_owner_id row = Some (lease_owner_id l) \<and>
                  rc_fencing_token row = lease_fencing_token l \<and> rc_state row = RC_ACTIVE
               then (Inr True, set_control db (lease_run_id l)
                       (row\<lparr>rc_owner_id := None, rc_lease_until := Some now,
                            rc_version := rc_version row + 1, rc_updated_at := now\<rparr>))
               else (Inr False, db)))"

text \<open>
  \<^verbatim>\<open>request_cancel\<close>: at most one command per Run. A command id that another Run already uses
  violates the primary key.
\<close>

definition request_cancel ::
  "control_db \<Rightarrow> string \<Rightarrow> string \<Rightarrow> string \<Rightarrow> int \<Rightarrow> (control_error + cancel_intent) \<times> control_db" where
  "request_cancel db run reason command_id now =
     (if blank run \<or> blank reason \<or> blank command_id then (Inl IdentityInvalid, db)
      else let row = (case map_of (controls db) run of
                        None \<Rightarrow> new_control_row None 0 now | Some r \<Rightarrow> r)
           in if rc_state row = RC_CLOSED then (Inl RunControlConflict, db)
              else case map_of (commands db) run of
                     Some c \<Rightarrow>
                       if cmd_reason c \<noteq> reason then (Inl RunControlConflict, db)
                       else (Inr \<lparr>ci_run_id = run, ci_command_id = cmd_id c, ci_reason = cmd_reason c,
                                  ci_created_at = cmd_created_at c\<rparr>,
                             set_control db run row)
                   | None \<Rightarrow>
                       if command_id \<in> cmd_id ` snd ` set (commands db) then (Inl IntegrityViolation, db)
                       else (Inr \<lparr>ci_run_id = run, ci_command_id = command_id, ci_reason = reason,
                                  ci_created_at = now\<rparr>,
                             set_control (db\<lparr>commands := AList.update run
                                 \<lparr>cmd_id = command_id, cmd_reason = reason, cmd_created_at = now\<rparr>
                                 (commands db)\<rparr>) run
                               (row\<lparr>rc_cancel_command_id := Some command_id,
                                    rc_cancel_reason := Some reason,
                                    rc_cancel_requested_at := Some now,
                                    rc_version := rc_version row + 1, rc_updated_at := now\<rparr>)))"

definition get_cancel_intent :: "control_db \<Rightarrow> string \<Rightarrow> cancel_intent option" where
  "get_cancel_intent db run =
     map_option (\<lambda>c. \<lparr>ci_run_id = run, ci_command_id = cmd_id c, ci_reason = cmd_reason c,
                      ci_created_at = cmd_created_at c\<rparr>) (map_of (commands db) run)"

text \<open>\<^verbatim>\<open>assert_current\<close> and \<^verbatim>\<open>assert_current_in_transaction\<close>\<close>

definition assert_current :: "control_db \<Rightarrow> run_lease \<Rightarrow> int \<Rightarrow> control_error option" where
  "assert_current db l now =
     (case validate_lease l of
        Some e \<Rightarrow> Some e
      | None \<Rightarrow> (case current_row db l now of None \<Rightarrow> Some OwnershipLost | Some row \<Rightarrow> None))"

definition close_terminal_locked :: "run_control_row \<Rightarrow> int \<Rightarrow> int \<Rightarrow> run_control_row" where
  "close_terminal_locked row sequence now =
     row\<lparr>rc_state := RC_CLOSED, rc_owner_id := None, rc_lease_until := None,
         rc_terminal_sequence := Some sequence, rc_version := rc_version row + 1,
         rc_updated_at := now\<rparr>"

text \<open>
  \<^verbatim>\<open>finalize_terminal\<close>: \<open>appended\<close> is what the Journal and the client feed answer inside the
  transaction, \<open>None\<close> if one of them raises.
\<close>

definition finalize_terminal ::
  "control_db \<Rightarrow> run_lease \<Rightarrow> int \<Rightarrow> 'status option \<Rightarrow> int \<Rightarrow> (control_error + 'status) \<times> control_db" where
  "finalize_terminal db l sequence appended now =
     (case validate_lease l of
        Some e \<Rightarrow> (Inl e, db)
      | None \<Rightarrow>
          (case current_row db l now of
             None \<Rightarrow> (Inl OwnershipLost, db)
           | Some row \<Rightarrow>
               (case appended of
                  None \<Rightarrow> (Inl AppendFailed, db)
                | Some status \<Rightarrow>
                    (Inr status, set_control db (lease_run_id l)
                       (close_terminal_locked row sequence now)))))"

section \<open>Histories\<close>

text \<open>The database with the leases that were ever granted and the terminal writes that succeeded.\<close>

record control_system =
  cs_db :: control_db
  granted :: "run_lease list"
  finalized :: "string list"

datatype control_call =
    Claim string string int
  | Renew run_lease int
  | Release run_lease int
  | RequestCancel string string string int
  | Finalize run_lease int bool int

fun grant_result :: "control_system \<Rightarrow> (control_error + run_lease) \<times> control_db \<Rightarrow> control_system" where
  "grant_result s (Inl e, db) = s\<lparr>cs_db := db\<rparr>"
| "grant_result s (Inr l, db) = s\<lparr>cs_db := db, granted := granted s @ [l]\<rparr>"

fun control_post :: "int \<Rightarrow> control_system \<Rightarrow> control_call \<Rightarrow> control_system" where
  "control_post secs s (Claim run owner now) = grant_result s (claim secs (cs_db s) run owner now)"
| "control_post secs s (Renew l now) = grant_result s (renew secs (cs_db s) l now)"
| "control_post secs s (Release l now) = s\<lparr>cs_db := snd (release_lease (cs_db s) l now)\<rparr>"
| "control_post secs s (RequestCancel run reason cid now) =
     s\<lparr>cs_db := snd (request_cancel (cs_db s) run reason cid now)\<rparr>"
| "control_post secs s (Finalize l seqno ok now) =
     (case finalize_terminal (cs_db s) l seqno (if ok then Some () else None) now of
        (Inl e, db) \<Rightarrow> s\<lparr>cs_db := db\<rparr>
      | (Inr u, db) \<Rightarrow> s\<lparr>cs_db := db, finalized := finalized s @ [lease_run_id l]\<rparr>)"

definition empty_system :: control_system where
  "empty_system = \<lparr>cs_db = \<lparr>controls = [], commands = []\<rparr>, granted = [], finalized = []\<rparr>"

text \<open>How one row may evolve in one transaction.\<close>

definition row_evolves :: "run_control_row \<Rightarrow> run_control_row \<Rightarrow> bool" where
  "row_evolves r r' \<longleftrightarrow>
     rc_fencing_token r \<le> rc_fencing_token r' \<and>
     (rc_fencing_token r' = rc_fencing_token r \<longrightarrow>
        rc_owner_id r' = rc_owner_id r \<or> rc_owner_id r' = None) \<and>
     (rc_state r = RC_CLOSED \<longrightarrow> r' = r)"

definition db_evolves :: "control_db \<Rightarrow> control_db \<Rightarrow> bool" where
  "db_evolves db db' \<longleftrightarrow> (\<forall>run row. map_of (controls db) run = Some row \<longrightarrow>
     (\<exists>row'. map_of (controls db') run = Some row' \<and> row_evolves row row'))"

lemma row_evolves_refl [simp]: "row_evolves r r"
  by (simp add: row_evolves_def)

lemma row_evolves_trans: "row_evolves a b \<Longrightarrow> row_evolves b c \<Longrightarrow> row_evolves a c"
  by (auto simp: row_evolves_def)

lemma db_evolves_refl [simp]: "db_evolves db db"
  by (simp add: db_evolves_def)

lemma db_evolves_trans: "db_evolves a b \<Longrightarrow> db_evolves b c \<Longrightarrow> db_evolves a c"
  unfolding db_evolves_def by (meson row_evolves_trans)

lemma map_of_set_control [simp]:
  "map_of (controls (set_control db run row)) = (map_of (controls db))(run \<mapsto> row)"
  by (simp add: set_control_def)

lemma db_evolves_set:
  "(\<And>r. map_of (controls db) run = Some r \<Longrightarrow> row_evolves r row) \<Longrightarrow> db_evolves db (set_control db run row)"
  by (simp add: db_evolves_def)

lemma set_control_commands:
  "map_of (controls (set_control (db\<lparr>commands := cs\<rparr>) run row)) = map_of (controls (set_control db run row))"
  by (simp add: set_control_def)

lemma current_rowD:
  "current_row db l now = Some row \<Longrightarrow> map_of (controls db) (lease_run_id l) = Some row \<and>
     rc_owner_id row = Some (lease_owner_id l) \<and> rc_fencing_token row = lease_fencing_token l \<and>
     rc_state row = RC_ACTIVE \<and> (\<exists>t. rc_lease_until row = Some t \<and> now < t)"
  by (auto simp: current_row_def split: option.splits if_splits)

text \<open>What a granted lease says about the row before and after.\<close>

definition row_granted :: "run_control_row option \<Rightarrow> string \<Rightarrow> run_control_row \<Rightarrow> bool" where
  "row_granted before owner row' \<longleftrightarrow> rc_owner_id row' = Some owner \<and> rc_state row' = RC_ACTIVE \<and>
     (case before of
        None \<Rightarrow> rc_fencing_token row' = 1
      | Some row \<Rightarrow> rc_state row = RC_ACTIVE \<and>
          (rc_fencing_token row' = rc_fencing_token row + 1 \<or>
           rc_fencing_token row' = rc_fencing_token row \<and> rc_owner_id row = Some owner))"

definition grants :: "control_db \<Rightarrow> run_lease \<Rightarrow> control_db \<Rightarrow> bool" where
  "grants db l db' \<longleftrightarrow> (\<exists>row'. db' = set_control db (lease_run_id l) row' \<and>
     rc_fencing_token row' = lease_fencing_token l \<and>
     row_granted (map_of (controls db) (lease_run_id l)) (lease_owner_id l) row')"

lemma lease_of_fields [simp]:
  "lease_run_id (lease_of run owner row) = run" "lease_owner_id (lease_of run owner row) = owner"
  "lease_fencing_token (lease_of run owner row) = rc_fencing_token row"
  by (simp_all add: lease_of_def)

lemma grantsI:
  "row_granted (map_of (controls db) run) owner row' \<Longrightarrow>
     grants db (lease_of run owner row') (set_control db run row')"
  by (auto simp: grants_def)

lemma active_or_closed: "rc_state row \<noteq> RC_CLOSED \<longleftrightarrow> rc_state row = RC_ACTIVE"
  by (cases "rc_state row") auto

lemma renew_locked_granted:
  "renew_locked secs row owner token now = Some row' \<Longrightarrow> rc_state row = RC_ACTIVE \<Longrightarrow>
     row_granted (Some row) owner row'"
  by (auto simp: renew_locked_def row_granted_def split: if_splits)

lemma takeover_locked_granted:
  "takeover_locked secs row owner now = Some row' \<Longrightarrow> row_granted (Some row) owner row'"
  by (auto simp: takeover_locked_def row_granted_def split: if_splits)

lemma claim_outcome:
  "claim secs db run owner now = (r, db') \<Longrightarrow>
     (case r of Inl e \<Rightarrow> db' = db | Inr l \<Rightarrow> grants db l db')"
proof (cases "map_of (controls db) run")
  case None
  assume "claim secs db run owner now = (r, db')"
  then show ?thesis
    using None
    by (auto simp: claim_def Let_def row_granted_def new_control_row_def intro!: grantsI split: if_split_asm)
next
  case (Some row)
  assume "claim secs db run owner now = (r, db')"
  then show ?thesis
    using Some
    by (auto simp: claim_def Let_def active_or_closed intro!: grantsI split: if_split_asm option.split_asm)
       (erule takeover_locked_granted | erule (1) renew_locked_granted)+
qed

lemma renew_outcome:
  "renew secs db l now = (r, db') \<Longrightarrow> (case r of Inl e \<Rightarrow> db' = db | Inr l' \<Rightarrow> grants db l' db')"
  by (auto simp: renew_def Let_def row_granted_def intro!: grantsI split: option.split_asm dest!: current_rowD)

lemma release_outcome:
  "snd (release_lease db l now) = db \<or>
   (\<exists>row. map_of (controls db) (lease_run_id l) = Some row \<and> rc_state row = RC_ACTIVE \<and>
      rc_owner_id row = Some (lease_owner_id l) \<and>
      snd (release_lease db l now) = set_control db (lease_run_id l)
        (row\<lparr>rc_owner_id := None, rc_lease_until := Some now, rc_version := rc_version row + 1,
             rc_updated_at := now\<rparr>))"
  by (auto simp: release_lease_def split: option.splits)

lemma cancel_outcome:
  "snd (request_cancel db run reason cid now) = db \<or>
   (\<exists>row. map_of (controls (snd (request_cancel db run reason cid now))) = (map_of (controls db))(run \<mapsto> row) \<and>
      rc_state row = RC_ACTIVE \<and>
      (case map_of (controls db) run of
         None \<Rightarrow> rc_fencing_token row = 0 \<and> rc_owner_id row = None
       | Some row0 \<Rightarrow> rc_state row0 = RC_ACTIVE \<and> rc_fencing_token row = rc_fencing_token row0 \<and>
           rc_owner_id row = rc_owner_id row0))"
proof (cases "map_of (controls db) run")
  case None
  then show ?thesis
    by (auto simp: request_cancel_def Let_def new_control_row_def set_control_commands split: option.split)
next
  case (Some row)
  then show ?thesis
    by (cases "rc_state row") (auto simp: request_cancel_def Let_def set_control_commands split: option.split)
qed

lemma finalize_outcome:
  "finalize_terminal db l seqno ok now = (r, db') \<Longrightarrow>
     (case r of Inl e \<Rightarrow> db' = db
      | Inr u \<Rightarrow> \<exists>row. map_of (controls db) (lease_run_id l) = Some row \<and> rc_state row = RC_ACTIVE \<and>
          rc_owner_id row = Some (lease_owner_id l) \<and> rc_fencing_token row = lease_fencing_token l \<and>
          db' = set_control db (lease_run_id l) (close_terminal_locked row seqno now))"
  by (auto simp: finalize_terminal_def split: option.splits dest!: current_rowD)

lemma grants_evolves: "grants db l db' \<Longrightarrow> db_evolves db db'"
  by (auto simp: grants_def row_granted_def row_evolves_def intro!: db_evolves_set)

lemma release_evolves: "db_evolves db (snd (release_lease db l now))"
  using release_outcome [of db l now] by (auto simp: row_evolves_def intro!: db_evolves_set)

lemma cancel_evolves: "db_evolves db (snd (request_cancel db run reason cid now))"
  using cancel_outcome [of db run reason cid now]
  by (auto simp: db_evolves_def row_evolves_def split: option.splits)

lemma finalize_evolves:
  "finalize_terminal db l seqno ok now = (r, db') \<Longrightarrow> db_evolves db db'"
  using finalize_outcome [of db l seqno ok now r db']
  by (cases r) (auto simp: row_evolves_def close_terminal_locked_def intro!: db_evolves_set)

section \<open>Invariant\<close>

text \<open>
  Every granted lease is at most as new as its row, belongs to the owner of the row when it is as new,
  and shares its token only with leases of the same owner; a finalised Run is closed.
\<close>

definition lease_fits :: "control_db \<Rightarrow> run_lease \<Rightarrow> bool" where
  "lease_fits db l \<longleftrightarrow> (\<exists>row. map_of (controls db) (lease_run_id l) = Some row \<and>
     lease_fencing_token l \<le> rc_fencing_token row \<and>
     (lease_fencing_token l = rc_fencing_token row \<longrightarrow>
        rc_owner_id row = Some (lease_owner_id l) \<or> rc_owner_id row = None))"

definition run_closed :: "control_db \<Rightarrow> string \<Rightarrow> bool" where
  "run_closed db run \<longleftrightarrow> (\<exists>row. map_of (controls db) run = Some row \<and> rc_state row = RC_CLOSED)"

definition same_token_owner :: "run_lease \<Rightarrow> run_lease \<Rightarrow> bool" where
  "same_token_owner l k \<longleftrightarrow>
     (lease_run_id l = lease_run_id k \<and> lease_fencing_token l = lease_fencing_token k \<longrightarrow>
      lease_owner_id l = lease_owner_id k)"

definition control_inv :: "control_system \<Rightarrow> bool" where
  "control_inv s \<longleftrightarrow> (\<forall>l \<in> set (granted s). lease_fits (cs_db s) l) \<and>
     (\<forall>l \<in> set (granted s). \<forall>k \<in> set (granted s). same_token_owner l k) \<and>
     distinct (finalized s) \<and> (\<forall>run \<in> set (finalized s). run_closed (cs_db s) run)"

lemma lease_fits_evolves:
  assumes "lease_fits db l" "db_evolves db db'"
  shows "lease_fits db' l"
proof -
  obtain row where row: "map_of (controls db) (lease_run_id l) = Some row"
    "lease_fencing_token l \<le> rc_fencing_token row"
    "lease_fencing_token l = rc_fencing_token row \<longrightarrow>
       rc_owner_id row = Some (lease_owner_id l) \<or> rc_owner_id row = None"
    using assms(1) by (auto simp: lease_fits_def)
  then obtain row' where "map_of (controls db') (lease_run_id l) = Some row'" "row_evolves row row'"
    using assms(2) by (auto simp: db_evolves_def)
  with row show ?thesis unfolding lease_fits_def row_evolves_def by (intro exI [of _ row']) force
qed

lemma run_closed_evolves:
  assumes "run_closed db run" "db_evolves db db'"
  shows "run_closed db' run"
proof -
  obtain row where row: "map_of (controls db) run = Some row" "rc_state row = RC_CLOSED"
    using assms(1) by (auto simp: run_closed_def)
  then obtain row' where row': "map_of (controls db') run = Some row'" "row_evolves row row'"
    using assms(2) by (auto simp: db_evolves_def)
  then have "row' = row" using row(2) by (simp add: row_evolves_def)
  with row row' show ?thesis by (simp add: run_closed_def)
qed

lemma inv_db_evolves:
  "control_inv s \<Longrightarrow> db_evolves (cs_db s) db' \<Longrightarrow> control_inv (s\<lparr>cs_db := db'\<rparr>)"
  by (auto simp: control_inv_def intro: lease_fits_evolves run_closed_evolves)

lemma inv_grant:
  assumes "control_inv s" "grants (cs_db s) l db'"
  shows "control_inv (s\<lparr>cs_db := db', granted := granted s @ [l]\<rparr>)"
proof -
  obtain row' where row': "db' = set_control (cs_db s) (lease_run_id l) row'"
    "rc_fencing_token row' = lease_fencing_token l"
    "row_granted (map_of (controls (cs_db s)) (lease_run_id l)) (lease_owner_id l) row'"
    using assms(2) by (auto simp: grants_def)
  have fits: "lease_fits db' l" using row' by (auto simp: lease_fits_def row_granted_def)
  have owner: "lease_owner_id k = lease_owner_id l"
    if k: "k \<in> set (granted s)" "lease_run_id k = lease_run_id l" "lease_fencing_token k = lease_fencing_token l" for k
  proof -
    have "lease_fits (cs_db s) k" using assms(1) k(1) by (simp add: control_inv_def)
    then obtain row where row: "map_of (controls (cs_db s)) (lease_run_id l) = Some row"
      "lease_fencing_token l \<le> rc_fencing_token row"
      "lease_fencing_token l = rc_fencing_token row \<Longrightarrow>
        rc_owner_id row = Some (lease_owner_id k) \<or> rc_owner_id row = None"
      using k(2,3) by (auto simp: lease_fits_def)
    then have "lease_fencing_token l = rc_fencing_token row" "rc_owner_id row = Some (lease_owner_id l)"
      using row'(2,3) by (auto simp: row_granted_def)
    with row(3) show ?thesis by simp
  qed
  have "same_token_owner k l \<and> same_token_owner l k" if "k \<in> set (granted s)" for k
    using owner [OF that] by (auto simp: same_token_owner_def)
  moreover have "same_token_owner l l" by (simp add: same_token_owner_def)
  ultimately show ?thesis
    using fits inv_db_evolves [OF assms(1) grants_evolves [OF assms(2)]] by (simp add: control_inv_def)
qed

lemma inv_grant_result:
  assumes "control_inv s" "case fst p of Inl e \<Rightarrow> snd p = cs_db s | Inr l \<Rightarrow> grants (cs_db s) l (snd p)"
  shows "control_inv (grant_result s p)"
  using assms by (cases p; cases "fst p") (auto simp: inv_grant)

lemma control_post_inv: "control_inv s \<Longrightarrow> control_inv (control_post secs s c)"
proof (induction c)
  case (Claim run owner now)
  then show ?case
    using claim_outcome [of secs "cs_db s" run owner now] by (auto intro!: inv_grant_result)
next
  case (Renew l now)
  then show ?case
    using renew_outcome [of secs "cs_db s" l now] by (auto intro!: inv_grant_result)
next
  case (Finalize l seqno ok now)
  obtain r db' where f: "finalize_terminal (cs_db s) l seqno (if ok then Some () else None) now = (r, db')"
    by fastforce
  note evolved = inv_db_evolves [OF Finalize finalize_evolves [OF f]]
  show ?case
  proof (cases r)
    case (Inl e)
    with f evolved show ?thesis by simp
  next
    case (Inr u)
    with finalize_outcome [OF f] obtain row where row:
        "map_of (controls (cs_db s)) (lease_run_id l) = Some row" "rc_state row = RC_ACTIVE"
        "db' = set_control (cs_db s) (lease_run_id l) (close_terminal_locked row seqno now)" by auto
    have "lease_run_id l \<notin> set (finalized s)"
      using Finalize row(1,2) by (auto simp: control_inv_def run_closed_def)
    moreover have "run_closed db' (lease_run_id l)"
      by (simp add: row(3) run_closed_def close_terminal_locked_def)
    ultimately have "control_inv (s\<lparr>cs_db := db', finalized := finalized s @ [lease_run_id l]\<rparr>)"
      using evolved by (simp add: control_inv_def)
    with f Inr show ?thesis by simp
  qed
qed (simp_all add: inv_db_evolves release_evolves cancel_evolves)

interpretation control_machine: evolving_machine "control_post secs" control_inv
  "\<lambda>s t. db_evolves (cs_db s) (cs_db t) \<and> set (granted s) \<subseteq> set (granted t)" for secs
proof (unfold_locales, goal_cases)
  case (1 s c)
  then show ?case by (rule control_post_inv)
next
  case (2 s)
  then show ?case by simp
next
  case (3 s t u)
  then show ?case by (auto intro: db_evolves_trans)
next
  case (4 s c)
  have grant: "db_evolves (cs_db s) (cs_db (grant_result s p)) \<and> set (granted s) \<subseteq> set (granted (grant_result s p))"
    if "case fst p of Inl e \<Rightarrow> snd p = cs_db s | Inr l \<Rightarrow> grants (cs_db s) l (snd p)" for p
    using that by (cases p; cases "fst p") (auto simp: grants_evolves)
  show ?case
  proof (cases c)
    case (Claim run owner now)
    then show ?thesis using claim_outcome [of secs "cs_db s" run owner now] by (auto intro!: grant)
  next
    case (Renew l now)
    then show ?thesis using renew_outcome [of secs "cs_db s" l now] by (auto intro!: grant)
  next
    case (Finalize l seqno ok now)
    then show ?thesis by (auto split: prod.split sum.split dest: finalize_evolves)
  qed (simp_all add: release_evolves cancel_evolves)
qed

lemma empty_system_inv: "control_inv empty_system"
  by (simp add: control_inv_def empty_system_def)

section \<open>Fencing\<close>

lemma assert_current_iff:
  "assert_current db l now = None \<longleftrightarrow> validate_lease l = None \<and> current_row db l now \<noteq> None"
  by (auto simp: assert_current_def split: option.split)

lemma current_row_token:
  assumes "lease_fits db k" "current_row db l now = Some row" "lease_run_id k = lease_run_id l"
  shows "lease_fencing_token k \<le> lease_fencing_token l"
  using assms current_rowD [OF assms(2)] by (auto simp: lease_fits_def)


lemma lease_samples:
  "granted (after_all (control_post 30) empty_system [Claim ''r'' ''a'' 0, Claim ''r'' ''b'' 31]) =
     [\<lparr>lease_run_id = ''r'', lease_owner_id = ''a'', lease_until = 30, lease_fencing_token = 1, lease_version = 1\<rparr>,
      \<lparr>lease_run_id = ''r'', lease_owner_id = ''b'', lease_until = 61, lease_fencing_token = 2, lease_version = 2\<rparr>]"
  by code_simp




section \<open>The abstract lock\<close>

text \<open>
  What the control plane promises per Run: a lock with a generation number. Taking it starts a new
  generation, giving it up or closing it keeps the number, and nothing leaves a closed lock.
\<close>

datatype fenced_lock = Absent | Unowned int | Owned string int | Closed int

inductive lock_step :: "fenced_lock \<Rightarrow> fenced_lock \<Rightarrow> bool" where
  create: "lock_step Absent (Unowned 0)"
| acquire: "lock_step (Unowned n) (Owned owner (n + 1))"
| steal: "lock_step (Owned old n) (Owned owner (n + 1))"
| give_up: "lock_step (Owned owner n) (Unowned n)"
| close: "lock_step (Owned owner n) (Closed n)"

inductive_cases lock_step_ClosedE [elim!]: "lock_step (Closed n) x"

definition lock_of :: "run_control_row \<Rightarrow> fenced_lock" where
  "lock_of row =
     (if rc_state row = RC_CLOSED then Closed (rc_fencing_token row)
      else case rc_owner_id row of
             None \<Rightarrow> Unowned (rc_fencing_token row)
           | Some owner \<Rightarrow> Owned owner (rc_fencing_token row))"

definition abs_lock :: "control_db \<Rightarrow> string \<Rightarrow> fenced_lock" where
  "abs_lock db run = (case map_of (controls db) run of None \<Rightarrow> Absent | Some row \<Rightarrow> lock_of row)"

lemma abs_lock_set [simp]:
  "abs_lock (set_control db run row) r = (if r = run then lock_of row else abs_lock db r)"
  by (simp add: abs_lock_def)

lemma lock_single: "lock_step x y \<Longrightarrow> lock_step\<^sup>*\<^sup>* x y"
  by (rule r_into_rtranclp)

lemma lock_steps:
  "lock_step\<^sup>*\<^sup>* Absent (Unowned 0)"
  "lock_step\<^sup>*\<^sup>* (Unowned n) (Owned owner (n + 1))"
  "lock_step\<^sup>*\<^sup>* (Owned old n) (Owned owner (n + 1))"
  "lock_step\<^sup>*\<^sup>* (Owned owner n) (Unowned n)"
  "lock_step\<^sup>*\<^sup>* (Owned owner n) (Closed n)"
  by (rule lock_single, rule lock_step.intros)+

lemma row_granted_steps:
  assumes "row_granted (map_of (controls db) run) owner row'"
  shows "lock_step\<^sup>*\<^sup>* (abs_lock db run) (lock_of row')"
proof (cases "map_of (controls db) run")
  case None
  then have "abs_lock db run = Absent" "lock_of row' = Owned owner (0 + 1)"
    using assms by (auto simp: abs_lock_def lock_of_def row_granted_def)
  moreover have "lock_step\<^sup>*\<^sup>* Absent (Owned owner (0 + 1))"
    using lock_steps(1) lock_steps(2) by (rule rtranclp_trans)
  ultimately show ?thesis by simp
next
  case (Some row)
  let ?n = "rc_fencing_token row"
  have row': "lock_of row' = Owned owner (rc_fencing_token row')" and active: "rc_state row = RC_ACTIVE"
    and step: "rc_fencing_token row' = ?n + 1 \<or> rc_fencing_token row' = ?n \<and> rc_owner_id row = Some owner"
    using assms Some by (auto simp: lock_of_def row_granted_def)
  have "abs_lock db run = (case rc_owner_id row of None \<Rightarrow> Unowned ?n | Some o' \<Rightarrow> Owned o' ?n)"
    using Some active by (simp add: abs_lock_def lock_of_def)
  with row' step show ?thesis
    by (cases "rc_owner_id row")
       (auto simp: lock_steps)
qed

lemma grants_steps: "grants db l db' \<Longrightarrow> lock_step\<^sup>*\<^sup>* (abs_lock db run) (abs_lock db' run)"
  by (auto simp: grants_def intro: row_granted_steps)

lemma release_steps: "lock_step\<^sup>*\<^sup>* (abs_lock db run) (abs_lock (snd (release_lease db l now)) run)"
  using release_outcome [of db l now]
  by (auto simp: lock_of_def abs_lock_def lock_steps)

lemma cancel_steps: "lock_step\<^sup>*\<^sup>* (abs_lock db run) (abs_lock (snd (request_cancel db r reason cid now)) run)"
proof -
  let ?db = "snd (request_cancel db r reason cid now)"
  consider "?db = db" | row where "map_of (controls ?db) = (map_of (controls db))(r \<mapsto> row)"
      "rc_state row = RC_ACTIVE" "map_of (controls db) r = None" "rc_fencing_token row = 0" "rc_owner_id row = None"
    | row row0 where "map_of (controls ?db) = (map_of (controls db))(r \<mapsto> row)"
      "rc_state row = RC_ACTIVE" "map_of (controls db) r = Some row0" "rc_state row0 = RC_ACTIVE"
      "rc_fencing_token row = rc_fencing_token row0" "rc_owner_id row = rc_owner_id row0"
    using cancel_outcome [of db r reason cid now] by (auto split: option.splits)
  then show ?thesis by cases (auto simp: lock_of_def abs_lock_def lock_steps split: option.split)
qed

lemma finalize_steps:
  "finalize_terminal db l seqno ok now = (r, db') \<Longrightarrow> lock_step\<^sup>*\<^sup>* (abs_lock db run) (abs_lock db' run)"
  using finalize_outcome [of db l seqno ok now r db']
  by (cases r)
     (auto simp: lock_of_def abs_lock_def close_terminal_locked_def lock_steps)

lemma control_post_steps:
  "lock_step\<^sup>*\<^sup>* (abs_lock (cs_db s) run) (abs_lock (cs_db (control_post secs s c)) run)"
proof (cases c)
  case (Claim r owner now)
  then show ?thesis
    using claim_outcome [of secs "cs_db s" r owner now]
    by (cases "claim secs (cs_db s) r owner now"; cases "fst (claim secs (cs_db s) r owner now)")
       (auto intro: grants_steps)
next
  case (Renew l now)
  then show ?thesis
    using renew_outcome [of secs "cs_db s" l now]
    by (cases "renew secs (cs_db s) l now"; cases "fst (renew secs (cs_db s) l now)")
       (auto intro: grants_steps)
next
  case (Finalize l seqno ok now)
  then show ?thesis by (auto split: prod.split sum.split intro: finalize_steps)
qed (simp_all add: release_steps cancel_steps)

interpretation control_lock: refining_machine "control_post secs" control_inv "\<lambda>s. abs_lock (cs_db s) run" lock_step
  for secs run
  by unfold_locales (rule control_post_steps)

text \<open>The generation of a lock never decreases, and a closed lock keeps its generation for ever.\<close>

fun generation :: "fenced_lock \<Rightarrow> int" where
  "generation Absent = 0"
| "generation (Unowned n) = n"
| "generation (Owned owner n) = n"
| "generation (Closed n) = n"

lemma lock_steps_generation: "lock_step\<^sup>*\<^sup>* x y \<Longrightarrow> generation x \<le> generation y"
  by (induction rule: rtranclp_induct) (auto elim: lock_step.cases)

text \<open>Every step leads forward, so a state that was left is never entered again.\<close>

fun lock_rank :: "fenced_lock \<Rightarrow> int" where
  "lock_rank Absent = - 1"
| "lock_rank (Owned owner n) = 3 * n"
| "lock_rank (Unowned n) = 3 * n + 1"
| "lock_rank (Closed n) = 3 * n + 2"

lemma lock_steps_rank: "lock_step\<^sup>*\<^sup>* x y \<Longrightarrow> x = y \<or> lock_rank x < lock_rank y"
  by (induction rule: rtranclp_induct) (auto elim!: lock_step.cases)

lemma lock_steps_no_return: "lock_step\<^sup>*\<^sup>* x y \<Longrightarrow> lock_step\<^sup>*\<^sup>* y z \<Longrightarrow> y \<noteq> x \<Longrightarrow> z \<noteq> x"
  using lock_steps_rank [of x y] lock_steps_rank [of y z] by auto

lemma control_lock_history:
  "lock_step\<^sup>*\<^sup>* (abs_lock (cs_db s) run) (abs_lock (cs_db (after_all (control_post secs) s calls)) run)"
  if "control_inv s"
  by (rule control_lock.history_sim [OF that])



end
