(* ===== verification/Approval.thy ===== *)
theory Approval
  imports State_Machine Complex_Main
begin

text \<open>
  \<^verbatim>\<open>core/runtime/approval.py\<close>: the approval of tool calls by a human. A controller belongs to
  one Run; a worker requests an approval for a tool invocation, a human decides it, and the worker
  may execute the tool only after it has claimed the approved request. Every mutation runs under
  one \<^verbatim>\<open>asyncio.Lock\<close>, so each coroutine is one step on the controller and the state of
  the Run, which it changes through the state machine. The synchronous entry points only submit
  these coroutines to the owning event loop.

  Arguments stand for what the controller reads: clock values, fresh ids
  (\<^verbatim>\<open>uuid4().hex\<close>), the cancellation token and the deadline, what the event emitter answers,
  and what the durable approval service answers where one is configured
  (\<open>None\<close> where it is not). The two digest functions (SHA-256 over a key and over canonical
  JSON) are the parameter \<open>digests\<close>.
\<close>

section \<open>Data\<close>

datatype approval_decision_value = APPROVE | REJECT

datatype approval_status =
    AP_PENDING | AP_APPROVED | AP_REJECTED | INVALIDATED_CANCELLED | INVALIDATED_TIMEOUT
  | INVALIDATED_RUN_TERMINAL | EXECUTION_CLAIMED

datatype approval_code =
    UNKNOWN_APPROVAL | UNKNOWN_RUN | RUN_INACTIVE | INVALIDATED | INVALID_STATE | BINDING_MISMATCH
  | DUPLICATE_INVOCATION | ALREADY_DECIDED | DECISION_CONFLICT | CONTROLLER_CLOSED
  | JOURNAL_UNAVAILABLE | CLAIM_NOT_APPROVED | CLAIM_ALREADY_EXECUTED | CLAIM_BINDING_MISMATCH
  | STATE_TRANSITION_FAILED | PUBLICATION_FAILED

text \<open>What a call raises: a typed approval error, a failed check, or a foreign exception.\<close>

datatype approval_exception =
  ApprovalError approval_code | ApprovalValueError string | ForeignException

record tool_invocation =
  inv_id :: string
  inv_tool_name :: string
  inv_arguments_digest :: string
  inv_idempotency_key :: "string option"
  inv_resource_key :: "string option"

text \<open>The fields that \<^verbatim>\<open>compute_invocation_binding_digest\<close> hashes.\<close>

record binding_payload =
  bp_identity_digest :: string
  bp_tool_name :: string
  bp_arguments_digest :: string
  bp_idempotency_key_digest :: "string option"
  bp_resource_key_digest :: "string option"
  bp_risk_level :: "string option"
  bp_risk_facts :: "string list"

record digests =
  key_digest :: "string \<Rightarrow> string"
  payload_digest :: "binding_payload \<Rightarrow> string"

record approval_request =
  ar_approval_id :: string
  ar_run_id :: string
  ar_step_id :: string
  ar_invocation_id :: string
  ar_tool_name :: string
  ar_invocation_identity_digest :: string
  ar_arguments_digest :: string
  ar_idempotency_key_digest :: "string option"
  ar_resource_key_digest :: "string option"
  ar_risk_level :: "string option"
  ar_risk_facts :: "string list"
  ar_invocation_binding_digest :: string
  ar_requested_at :: py_datetime

record approval_decision =
  ad_approval_id :: string
  ad_decision :: approval_decision_value
  ad_decided_at :: py_datetime
  ad_actor_id_digest :: "string option"

record approval_command_result =
  cr_run_id :: string
  cr_approval_id :: string
  cr_effective_status :: approval_status
  cr_idempotent :: bool
  cr_safe_error_code :: "approval_code option"
  cr_decided_at :: "py_datetime option"
  cr_invocation_binding_digest :: "string option"
  cr_execution_claim_id :: "string option"

definition result_ok :: "approval_command_result \<Rightarrow> bool" where
  "result_ok r \<longleftrightarrow> cr_safe_error_code r = None"

record approval_record =
  rec_approval_id :: string
  rec_request :: approval_request
  rec_decision :: "approval_decision option"
  rec_status :: approval_status
  rec_woken :: bool

record approval_controller =
  ctl_run_id :: string
  ctl_closed :: bool
  approvals :: "(string, approval_record) dict"
  active_by_invocation :: "(string, string) dict"
  mutations :: int

section \<open>Checks and digests\<close>

definition hex_digest :: "string \<Rightarrow> bool" where
  "hex_digest s \<longleftrightarrow> length s = 64 \<and> list_all (\<lambda>c. c \<in> set ''0123456789abcdef'') s"

definition request_check :: "approval_request \<Rightarrow> string option" where
  "request_check r = first_error
     [(blank (ar_approval_id r), ''approval_id''),
      (blank (ar_run_id r), ''run_id''),
      (blank (ar_step_id r), ''step_id''),
      (blank (ar_invocation_id r), ''invocation_id''),
      (blank (ar_tool_name r), ''tool_name''),
      (\<not> hex_digest (ar_invocation_identity_digest r), ''invocation_identity_digest''),
      (\<not> hex_digest (ar_arguments_digest r), ''arguments_digest''),
      (some_and (ar_idempotency_key_digest r) (\<lambda>d. \<not> hex_digest d), ''idempotency_key_digest''),
      (some_and (ar_resource_key_digest r) (\<lambda>d. \<not> hex_digest d), ''resource_key_digest''),
      (some_and (ar_risk_level r) blank, ''risk_level''),
      (\<not> hex_digest (ar_invocation_binding_digest r), ''invocation_binding_digest''),
      (\<not> is_utc (ar_requested_at r), ''requested_at'')]"

definition safe_key_digest :: "digests \<Rightarrow> string option \<Rightarrow> string option" where
  "safe_key_digest dg key = map_option (key_digest dg) key"

definition compute_invocation_binding_digest ::
  "digests \<Rightarrow> tool_invocation \<Rightarrow> string option \<Rightarrow> string list \<Rightarrow> string" where
  "compute_invocation_binding_digest dg call risk_level risk_facts =
     payload_digest dg
       \<lparr>bp_identity_digest = key_digest dg (inv_id call), bp_tool_name = inv_tool_name call,
        bp_arguments_digest = inv_arguments_digest call,
        bp_idempotency_key_digest = safe_key_digest dg (inv_idempotency_key call),
        bp_resource_key_digest = safe_key_digest dg (inv_resource_key call),
        bp_risk_level = risk_level, bp_risk_facts = sort risk_facts\<rparr>"

text \<open>The request a worker submits; \<^verbatim>\<open>to_safe_dict\<close> is its projection without the invocation id.\<close>

definition build_request ::
  "digests \<Rightarrow> string \<Rightarrow> string \<Rightarrow> tool_invocation \<Rightarrow> string \<Rightarrow> string option \<Rightarrow> string list
     \<Rightarrow> string \<Rightarrow> py_datetime \<Rightarrow> approval_request" where
  "build_request dg run step call tool risk_level risk_facts approval_id now =
     \<lparr>ar_approval_id = approval_id, ar_run_id = run, ar_step_id = step, ar_invocation_id = inv_id call,
      ar_tool_name = tool, ar_invocation_identity_digest = key_digest dg (inv_id call),
      ar_arguments_digest = inv_arguments_digest call,
      ar_idempotency_key_digest = safe_key_digest dg (inv_idempotency_key call),
      ar_resource_key_digest = safe_key_digest dg (inv_resource_key call),
      ar_risk_level = risk_level, ar_risk_facts = risk_facts,
      ar_invocation_binding_digest = compute_invocation_binding_digest dg call risk_level risk_facts,
      ar_requested_at = now\<rparr>"

section \<open>The bridge to the state machine\<close>

definition rejected_message :: string where
  "rejected_message = map (char_of :: nat \<Rightarrow> char)
     [84, 111, 111, 108, 32, 232, 176, 131, 231, 148, 168, 229, 183, 178, 232, 162,
      171, 230, 139, 146, 231, 187, 157, 229, 174, 161, 230, 137, 185]"

definition invalidated_message :: string where
  "invalidated_message = map (char_of :: nat \<Rightarrow> char)
     [232, 191, 144, 232, 161, 140, 229, 143, 150, 230, 182, 136, 228, 189, 191, 229,
      174, 161, 230, 137, 185, 229, 164, 177, 230, 149, 136]"

text \<open>Each bridge method builds one step event and applies it; the flag says that nothing was raised.\<close>

definition bridge_apply :: "agent_state \<Rightarrow> step_state_event \<Rightarrow> bool \<times> agent_state" where
  "bridge_apply st e =
     (case step_event_check e of
        Some x \<Rightarrow> (False, st)
      | None \<Rightarrow> (case apply_step_event st e of (st', err) \<Rightarrow> (err = None, st')))"

definition running_to_waiting :: "agent_state \<Rightarrow> string \<Rightarrow> py_datetime \<Rightarrow> bool \<times> agent_state" where
  "running_to_waiting st step t = bridge_apply st
     \<lparr>se_type = SE_APPROVAL_REQUESTED, se_step_id = step, se_occurred_at = t,
      se_error_code = None, se_error_message = None\<rparr>"

definition waiting_to_running :: "agent_state \<Rightarrow> string \<Rightarrow> py_datetime \<Rightarrow> bool \<times> agent_state" where
  "waiting_to_running st step t = bridge_apply st
     \<lparr>se_type = SE_APPROVAL_APPROVED, se_step_id = step, se_occurred_at = t,
      se_error_code = None, se_error_message = None\<rparr>"

definition waiting_to_failed_rejected :: "agent_state \<Rightarrow> string \<Rightarrow> py_datetime \<Rightarrow> bool \<times> agent_state" where
  "waiting_to_failed_rejected st step t = bridge_apply st
     \<lparr>se_type = SE_APPROVAL_REJECTED, se_step_id = step, se_occurred_at = t,
      se_error_code = Some ''TOOL_APPROVAL_REJECTED'', se_error_message = Some rejected_message\<rparr>"

definition waiting_to_cancelled :: "agent_state \<Rightarrow> string \<Rightarrow> py_datetime \<Rightarrow> bool \<times> agent_state" where
  "waiting_to_cancelled st step t = bridge_apply st
     \<lparr>se_type = SE_CANCELLED, se_step_id = step, se_occurred_at = t,
      se_error_code = Some ''RUN_CANCELLED'', se_error_message = Some invalidated_message\<rparr>"

section \<open>Controller\<close>

definition new_controller :: "string \<Rightarrow> approval_exception + approval_controller" where
  "new_controller run =
     (if blank run then Inl (ApprovalValueError ''run_id'')
      else Inr \<lparr>ctl_run_id = run, ctl_closed = False, approvals = [], active_by_invocation = [],
                mutations = 0\<rparr>)"

definition close_controller :: "approval_controller \<Rightarrow> approval_controller" where
  "close_controller c = c\<lparr>ctl_closed := True, approvals := [], active_by_invocation := []\<rparr>"

definition pending_count :: "approval_controller \<Rightarrow> nat" where
  "pending_count c = length (filter (\<lambda>p. rec_status (snd p) = AP_PENDING) (approvals c))"

definition get_request :: "approval_controller \<Rightarrow> string \<Rightarrow> approval_request option" where
  "get_request c k = map_option rec_request (map_of (approvals c) k)"

definition status_of :: "approval_controller \<Rightarrow> string \<Rightarrow> approval_status option" where
  "status_of c k = map_option rec_status (map_of (approvals c) k)"

definition set_record :: "approval_controller \<Rightarrow> string \<Rightarrow> approval_record \<Rightarrow> approval_controller" where
  "set_record c k r = c\<lparr>approvals := AList.update k r (approvals c)\<rparr>"

text \<open>
  What emitting an event does: there may be no emitter, it may fail in one of the ways the source
  catches, or raise something else.
\<close>

datatype emit_outcome = NoEmitter | Emitted | EmitFailed | EmitRaised

definition plain_result :: "string \<Rightarrow> string \<Rightarrow> approval_status \<Rightarrow> approval_command_result" where
  "plain_result run k st =
     \<lparr>cr_run_id = run, cr_approval_id = k, cr_effective_status = st, cr_idempotent = False,
      cr_safe_error_code = None, cr_decided_at = None, cr_invocation_binding_digest = None,
      cr_execution_claim_id = None\<rparr>"

definition error_result ::
  "string \<Rightarrow> string \<Rightarrow> approval_status \<Rightarrow> approval_code \<Rightarrow> approval_command_result" where
  "error_result run k st code = (plain_result run k st)\<lparr>cr_safe_error_code := Some code\<rparr>"

type_synonym approval_call_state = "approval_controller \<times> agent_state"

definition request_approval ::
  "digests \<Rightarrow> approval_call_state \<Rightarrow> string \<Rightarrow> tool_invocation \<Rightarrow> string \<Rightarrow> string option \<Rightarrow> string list
     \<Rightarrow> emit_outcome \<Rightarrow> (unit + approval_request) option \<Rightarrow> string \<Rightarrow> py_datetime \<Rightarrow> py_datetime
     \<Rightarrow> (approval_exception + approval_request) \<times> approval_call_state" where
  "request_approval dg s step call tool risk_level risk_facts emit durable approval_id now now2 =
     (let (c, st) = s;
          req = build_request dg (ctl_run_id c) step call tool risk_level risk_facts approval_id now
      in if blank step then (Inl (ApprovalValueError ''step_id''), s)
         else if blank tool then (Inl (ApprovalValueError ''tool_name''), s)
         else case request_check req of
           Some field \<Rightarrow> (Inl (ApprovalValueError field), s)
         | None \<Rightarrow>
             if ctl_closed c then (Inl (ApprovalError CONTROLLER_CLOSED), s)
             else if map_of (active_by_invocation c) (inv_id call) \<noteq> None
             then (Inl (ApprovalError DUPLICATE_INVOCATION), s)
             else case (case durable of None \<Rightarrow> Inr req | Some r \<Rightarrow> r) of
               Inl u \<Rightarrow> (Inl (ApprovalError PUBLICATION_FAILED), s)
             | Inr req' \<Rightarrow>
                 (case emit of
                    EmitFailed \<Rightarrow> (Inl (ApprovalError PUBLICATION_FAILED), s)
                  | EmitRaised \<Rightarrow> (Inl ForeignException, s)
                  | _ \<Rightarrow>
                      (case running_to_waiting st (ar_step_id req') now2 of
                         (False, st') \<Rightarrow> (Inl (ApprovalError STATE_TRANSITION_FAILED), c, st')
                       | (True, st') \<Rightarrow>
                           (Inr req',
                            c\<lparr>approvals := AList.update (ar_approval_id req')
                                 \<lparr>rec_approval_id = ar_approval_id req', rec_request = req',
                                  rec_decision = None, rec_status = AP_PENDING, rec_woken = False\<rparr>
                                 (approvals c),
                              active_by_invocation := AList.update (inv_id call) (ar_approval_id req')
                                 (active_by_invocation c),
                              mutations := mutations c + 1\<rparr>,
                            st'))))"

text \<open>The cancellation token and the deadline of the Run.\<close>

record run_clock =
  run_cancelled :: bool
  run_remaining :: "real option"

definition inactive_status :: "run_clock \<Rightarrow> approval_status option" where
  "inactive_status rc =
     (if run_cancelled rc then Some INVALIDATED_CANCELLED
      else if some_and (run_remaining rc) (\<lambda>r. r \<le> 0) then Some INVALIDATED_TIMEOUT
      else None)"

definition late_decision_result ::
  "string \<Rightarrow> approval_record \<Rightarrow> approval_decision_value \<Rightarrow> approval_command_result" where
  "late_decision_result run r d =
     (let decided = map_option ad_decided_at (rec_decision r)
      in if rec_status r \<in> {INVALIDATED_CANCELLED, INVALIDATED_TIMEOUT}
         then (error_result run (rec_approval_id r) (rec_status r) INVALIDATED)\<lparr>cr_decided_at := decided\<rparr>
         else if some_and (rec_decision r) (\<lambda>x. ad_decision x = d)
         then (plain_result run (rec_approval_id r) (rec_status r))
                \<lparr>cr_idempotent := True, cr_decided_at := decided\<rparr>
         else (error_result run (rec_approval_id r) (rec_status r) DECISION_CONFLICT)\<lparr>cr_decided_at := decided\<rparr>)"

definition finalize_decision ::
  "approval_call_state \<Rightarrow> string \<Rightarrow> approval_record \<Rightarrow> approval_decision_value \<Rightarrow> string option \<Rightarrow> py_datetime
     \<Rightarrow> approval_command_result \<times> approval_call_state" where
  "finalize_decision s k r d actor_digest now =
     (let (c, st) = s
      in if rec_status r \<noteq> AP_PENDING then (late_decision_result (ctl_run_id c) r d, s)
         else case (if d = APPROVE then waiting_to_running st (ar_step_id (rec_request r)) now
                    else waiting_to_failed_rejected st (ar_step_id (rec_request r)) now) of
           (False, st') \<Rightarrow>
             (error_result (ctl_run_id c) (rec_approval_id r) (rec_status r) STATE_TRANSITION_FAILED, c, st')
         | (True, st') \<Rightarrow>
             (let status = (if d = APPROVE then AP_APPROVED else AP_REJECTED);
                  r' = r\<lparr>rec_status := status, rec_woken := True,
                         rec_decision := Some \<lparr>ad_approval_id = rec_approval_id r, ad_decision = d,
                           ad_decided_at = now, ad_actor_id_digest = actor_digest\<rparr>\<rparr>
              in ((plain_result (ctl_run_id c) (rec_approval_id r) status)\<lparr>cr_decided_at := Some now\<rparr>,
                  (set_record c k r')\<lparr>mutations := mutations c + 1\<rparr>, st')))"

definition publish_and_decide ::
  "digests \<Rightarrow> approval_call_state \<Rightarrow> string \<Rightarrow> approval_record \<Rightarrow> approval_decision_value \<Rightarrow> string option
     \<Rightarrow> emit_outcome \<Rightarrow> py_datetime \<Rightarrow> (approval_exception + approval_command_result) \<times> approval_call_state" where
  "publish_and_decide dg s k r d actor emit now =
     (case emit of
        NoEmitter \<Rightarrow>
          (Inr (error_result (ctl_run_id (fst s)) (rec_approval_id r) AP_PENDING JOURNAL_UNAVAILABLE), s)
      | EmitFailed \<Rightarrow>
          (Inr (error_result (ctl_run_id (fst s)) (rec_approval_id r) AP_PENDING PUBLICATION_FAILED), s)
      | EmitRaised \<Rightarrow> (Inl ForeignException, s)
      | Emitted \<Rightarrow> (case finalize_decision s k r d (safe_key_digest dg actor) now of (res, s') \<Rightarrow> (Inr res, s')))"

text \<open>The answer of the durable service projected onto the local record and the step.\<close>

definition project_durable_decision ::
  "digests \<Rightarrow> approval_call_state \<Rightarrow> string \<Rightarrow> approval_decision_value \<Rightarrow> string option
     \<Rightarrow> approval_command_result \<Rightarrow> py_datetime \<Rightarrow> approval_call_state" where
  "project_durable_decision dg s k d actor res now =
     (let (c, st) = s
      in case map_of (approvals c) k of
           None \<Rightarrow> s
         | Some r \<Rightarrow>
             if cr_safe_error_code res \<noteq> None then s
             else
               (let decided_at = (case cr_decided_at res of None \<Rightarrow> now | Some t \<Rightarrow> t);
                    r' = r\<lparr>rec_status := cr_effective_status res, rec_woken := True,
                           rec_decision := Some \<lparr>ad_approval_id = k, ad_decision = d,
                             ad_decided_at = decided_at, ad_actor_id_digest = safe_key_digest dg actor\<rparr>\<rparr>;
                    step = ar_step_id (rec_request r);
                    st' = (if cr_effective_status res = AP_APPROVED then snd (waiting_to_running st step decided_at)
                           else if cr_effective_status res = AP_REJECTED
                           then snd (waiting_to_failed_rejected st step decided_at) else st)
                in (set_record c k r', st')))"

definition decide_approval ::
  "digests \<Rightarrow> approval_call_state \<Rightarrow> string \<Rightarrow> string \<Rightarrow> string \<Rightarrow> approval_decision_value \<Rightarrow> string option
     \<Rightarrow> approval_command_result option \<Rightarrow> run_clock \<Rightarrow> emit_outcome \<Rightarrow> py_datetime
     \<Rightarrow> (approval_exception + approval_command_result) \<times> approval_call_state" where
  "decide_approval dg s run k binding d actor durable rc emit now =
     (let (c, st) = s
      in if run \<noteq> ctl_run_id c then (Inr (error_result run k AP_PENDING UNKNOWN_RUN), s)
         else case durable of
           Some res \<Rightarrow> (Inr res, project_durable_decision dg s k d actor res now)
         | None \<Rightarrow>
             if ctl_closed c then (Inl (ApprovalError CONTROLLER_CLOSED), s)
             else case map_of (approvals c) k of
               None \<Rightarrow> (Inr (error_result run k AP_PENDING UNKNOWN_APPROVAL), s)
             | Some r \<Rightarrow>
                 if ar_invocation_binding_digest (rec_request r) \<noteq> binding
                 then (Inr (error_result run k (rec_status r) BINDING_MISMATCH), s)
                 else if rec_status r \<noteq> AP_PENDING then (Inr (late_decision_result (ctl_run_id c) r d), s)
                 else case inactive_status rc of
                   Some status \<Rightarrow> (Inr (error_result run k status RUN_INACTIVE), s)
                 | None \<Rightarrow> publish_and_decide dg s k r d actor emit now)"

text \<open>
  The answers of the durable service to a claim: the stored request, whether this controller holds a
  lease, and the claim itself (\<open>Inl True\<close> for lost ownership, \<open>Inl False\<close> for any other failure).
\<close>

record durable_claim_answer =
  da_request :: "approval_request option"
  da_has_lease :: bool
  da_claim :: "bool + string"

definition claim_execution_durable ::
  "digests \<Rightarrow> string \<Rightarrow> string \<Rightarrow> tool_invocation \<Rightarrow> durable_claim_answer
     \<Rightarrow> approval_exception + approval_command_result" where
  "claim_execution_durable dg run k call ans =
     (case da_request ans of
        None \<Rightarrow> Inr (error_result run k AP_PENDING UNKNOWN_APPROVAL)
      | Some req \<Rightarrow>
          if \<not> da_has_lease ans then Inl (ApprovalError CLAIM_NOT_APPROVED)
          else let binding = compute_invocation_binding_digest dg call (ar_risk_level req) (ar_risk_facts req)
               in if binding \<noteq> ar_invocation_binding_digest req
                  then Inr (error_result run k AP_APPROVED CLAIM_BINDING_MISMATCH)
                  else case da_claim ans of
                         Inl True \<Rightarrow> Inl ForeignException
                       | Inl False \<Rightarrow> Inr (error_result run k AP_APPROVED CLAIM_ALREADY_EXECUTED)
                       | Inr claim_id \<Rightarrow>
                           Inr ((plain_result run k EXECUTION_CLAIMED)
                             \<lparr>cr_invocation_binding_digest := Some binding,
                              cr_execution_claim_id := Some claim_id\<rparr>))"

text \<open>The claimed invocation is the one that was approved.\<close>

definition same_invocation :: "digests \<Rightarrow> tool_invocation \<Rightarrow> approval_request \<Rightarrow> bool" where
  "same_invocation dg call req \<longleftrightarrow>
     inv_id call = ar_invocation_id req \<and> inv_tool_name call = ar_tool_name req \<and>
     inv_arguments_digest call = ar_arguments_digest req \<and>
     safe_key_digest dg (inv_idempotency_key call) = ar_idempotency_key_digest req \<and>
     safe_key_digest dg (inv_resource_key call) = ar_resource_key_digest req"

definition claim_execution ::
  "digests \<Rightarrow> approval_controller \<Rightarrow> string \<Rightarrow> tool_invocation \<Rightarrow> durable_claim_answer option \<Rightarrow> run_clock
     \<Rightarrow> (approval_exception + approval_command_result) \<times> approval_controller" where
  "claim_execution dg c k call durable rc =
     (case durable of
        Some ans \<Rightarrow> (claim_execution_durable dg (ctl_run_id c) k call ans, c)
      | None \<Rightarrow>
          if ctl_closed c then (Inl (ApprovalError CONTROLLER_CLOSED), c)
          else case map_of (approvals c) k of
            None \<Rightarrow> (Inr (error_result (ctl_run_id c) k AP_PENDING UNKNOWN_APPROVAL), c)
          | Some r \<Rightarrow>
              if \<not> same_invocation dg call (rec_request r)
              then (Inr (error_result (ctl_run_id c) k (rec_status r) CLAIM_BINDING_MISMATCH), c)
              else if rec_status r \<noteq> AP_APPROVED
              then (Inr (error_result (ctl_run_id c) k (rec_status r)
                      (if rec_status r = EXECUTION_CLAIMED then CLAIM_ALREADY_EXECUTED
                       else CLAIM_NOT_APPROVED)), c)
              else case inactive_status rc of
                Some status \<Rightarrow>
                  (Inr (error_result (ctl_run_id c) k status RUN_INACTIVE),
                   set_record c k (r\<lparr>rec_status := status, rec_woken := True\<rparr>))
              | None \<Rightarrow>
                  (Inr ((plain_result (ctl_run_id c) k EXECUTION_CLAIMED)
                     \<lparr>cr_invocation_binding_digest := Some (ar_invocation_binding_digest (rec_request r))\<rparr>),
                   (set_record c k (r\<lparr>rec_status := EXECUTION_CLAIMED, rec_woken := True\<rparr>))
                     \<lparr>mutations := mutations c + 1\<rparr>))"

text \<open>\<^verbatim>\<open>_observe_durable_status_coro\<close>: the answer of the durable service is \<open>durable\<close>.\<close>

definition observe_durable_status ::
  "approval_call_state \<Rightarrow> string \<Rightarrow> approval_status option \<Rightarrow> py_datetime
     \<Rightarrow> (approval_exception + approval_status option) \<times> approval_call_state" where
  "observe_durable_status s k durable now =
     (case durable of
        None \<Rightarrow> (Inr None, s)
      | Some ds \<Rightarrow>
          if ds = AP_PENDING then (Inr (Some AP_PENDING), s)
          else let (c, st) = s
               in if ctl_closed c then (Inl (ApprovalError CONTROLLER_CLOSED), s)
                  else case map_of (approvals c) k of
                    None \<Rightarrow> (Inr None, s)
                  | Some r \<Rightarrow>
                      if rec_status r \<noteq> AP_PENDING then (Inr (Some (rec_status r)), s)
                      else if ds = EXECUTION_CLAIMED then (Inr (Some ds), s)
                      else
                        (let step = ar_step_id (rec_request r)
                         in case (if ds = AP_APPROVED then waiting_to_running st step now
                                  else if ds = AP_REJECTED then waiting_to_failed_rejected st step now
                                  else waiting_to_cancelled st step now) of
                              (False, st') \<Rightarrow> (Inl (ApprovalError STATE_TRANSITION_FAILED), c, st')
                            | (True, st') \<Rightarrow>
                                (Inr (Some ds),
                                 (set_record c k (r\<lparr>rec_status := ds, rec_woken := True\<rparr>))
                                   \<lparr>mutations := mutations c + 1\<rparr>, st')))"

text \<open>
  \<^verbatim>\<open>_invalidate_coro\<close>: the loop over the records. An emitter that raises outside the caught
  classes ends it, with the records before already changed.
\<close>

fun invalidate_loop ::
  "approval_status \<Rightarrow> (string \<Rightarrow> emit_outcome) \<Rightarrow> py_datetime \<Rightarrow> (string \<times> approval_record) list
     \<Rightarrow> approval_call_state
     \<Rightarrow> (approval_exception + approval_command_result list) \<times> approval_call_state" where
  "invalidate_loop status emit now [] s = (Inr [], s)"
| "invalidate_loop status emit now ((k, r) # rs) s =
     (if rec_status r \<in> {EXECUTION_CLAIMED, AP_REJECTED, INVALIDATED_CANCELLED, INVALIDATED_TIMEOUT}
      then invalidate_loop status emit now rs s
      else if emit k = EmitRaised then (Inl ForeignException, s)
      else
        (let (c, st) = s;
             st' = snd (waiting_to_cancelled st (ar_step_id (rec_request r)) now);
             c' = (set_record c k (r\<lparr>rec_status := status, rec_woken := True\<rparr>))
                    \<lparr>mutations := mutations c + 1\<rparr>
         in case invalidate_loop status emit now rs (c', st') of
              (Inl e, s') \<Rightarrow> (Inl e, s')
            | (Inr res, s') \<Rightarrow>
                (Inr ((plain_result (ctl_run_id c) (rec_approval_id r) status)
                        \<lparr>cr_decided_at := Some now\<rparr> # res), s')))"

definition invalidate ::
  "approval_call_state \<Rightarrow> approval_status \<Rightarrow> (string \<Rightarrow> emit_outcome) \<Rightarrow> py_datetime
     \<Rightarrow> (approval_exception + approval_command_result list) \<times> approval_call_state" where
  "invalidate s status emit now =
     (if status \<notin> {INVALIDATED_CANCELLED, INVALIDATED_TIMEOUT}
      then (Inl (ApprovalValueError ''status''), s)
      else invalidate_loop status emit now (approvals (fst s)) s)"

text \<open>
  One round of \<^verbatim>\<open>wait_for_decision\<close>: it returns, raises, or polls again. \<open>inactive\<close> says
  that \<^verbatim>\<open>raise_if_inactive\<close> raises, \<open>observed\<close> is what the observation of a durable
  service returned, \<open>loop_policy\<close> that the Run executes under a durable agent loop, and
  \<open>exhausted\<close> is \<^verbatim>\<open>deadline_exhausted\<close>.
\<close>

datatype wait_outcome =
    WaitReturned approval_command_result | WaitInactive | WaitSuspended | WaitDeadlineExceeded
  | PollAgain bool

definition wait_round ::
  "approval_controller \<Rightarrow> string \<Rightarrow> bool \<Rightarrow> approval_status option \<Rightarrow> bool \<Rightarrow> real option \<Rightarrow> bool
     \<Rightarrow> wait_outcome" where
  "wait_round c k inactive observed loop_policy remaining exhausted =
     (if inactive then WaitInactive
      else case map_of (approvals c) k of
        None \<Rightarrow> WaitReturned (error_result (ctl_run_id c) k INVALIDATED_CANCELLED UNKNOWN_APPROVAL)
      | Some r \<Rightarrow>
          if rec_status r \<noteq> AP_PENDING
          then WaitReturned ((plain_result (ctl_run_id c) k (rec_status r))
                 \<lparr>cr_decided_at := map_option ad_decided_at (rec_decision r)\<rparr>)
          else if some_and observed (\<lambda>ds. ds \<noteq> AP_PENDING) then PollAgain exhausted
          else if loop_policy then WaitSuspended
          else if some_and remaining (\<lambda>t. t \<le> 0)
          then (if exhausted then WaitDeadlineExceeded else PollAgain True)
          else PollAgain exhausted)"

section \<open>Histories of the in-process controller\<close>

text \<open>
  The controller and the state of the Run, with the approval ids drawn so far, the decisions that took
  effect and the execution claims that were granted. An id that was drawn is not drawn again.
  Other parts of the program may change the state of the Run between two calls in any way.
\<close>

record approval_system =
  as_ctl :: approval_controller
  as_state :: agent_state
  used_ids :: "string list"
  decided :: "(string \<times> approval_decision_value) list"
  claimed :: "string list"

datatype approval_op =
    RequestOp string tool_invocation string "string option" "string list" emit_outcome string py_datetime py_datetime
  | DecideOp string string string approval_decision_value "string option" run_clock emit_outcome py_datetime
  | ClaimOp string tool_invocation run_clock
  | InvalidateOp approval_status "string \<Rightarrow> emit_outcome" py_datetime
  | CloseOp
  | StateOp agent_state

definition took_effect :: "approval_exception + approval_command_result \<Rightarrow> bool" where
  "took_effect r = (case r of Inl e \<Rightarrow> False | Inr res \<Rightarrow> result_ok res \<and> \<not> cr_idempotent res)"

fun approval_post :: "digests \<Rightarrow> approval_system \<Rightarrow> approval_op \<Rightarrow> approval_system" where
  "approval_post dg s (RequestOp step call tool risk facts emit k now now2) =
     (if k \<in> set (used_ids s) then s
      else case request_approval dg (as_ctl s, as_state s) step call tool risk facts emit None k now now2 of
             (r, c, st) \<Rightarrow> s\<lparr>as_ctl := c, as_state := st, used_ids := k # used_ids s\<rparr>)"
| "approval_post dg s (DecideOp run k binding d actor rc emit now) =
     (case decide_approval dg (as_ctl s, as_state s) run k binding d actor None rc emit now of
        (r, c, st) \<Rightarrow> s\<lparr>as_ctl := c, as_state := st,
                       decided := (if took_effect r then (k, d) # decided s else decided s)\<rparr>)"
| "approval_post dg s (ClaimOp k call rc) =
     (case claim_execution dg (as_ctl s) k call None rc of
        (r, c) \<Rightarrow> s\<lparr>as_ctl := c, claimed := (if took_effect r then k # claimed s else claimed s)\<rparr>)"
| "approval_post dg s (InvalidateOp status emit now) =
     (case invalidate (as_ctl s, as_state s) status emit now of
        (r, c, st) \<Rightarrow> s\<lparr>as_ctl := c, as_state := st\<rparr>)"
| "approval_post dg s CloseOp = s\<lparr>as_ctl := close_controller (as_ctl s)\<rparr>"
| "approval_post dg s (StateOp st) = s\<lparr>as_state := st\<rparr>"

text \<open>What a record says about the two logs.\<close>

definition record_ok :: "approval_system \<Rightarrow> string \<Rightarrow> approval_record \<Rightarrow> bool" where
  "record_ok s k r \<longleftrightarrow> k \<in> set (used_ids s) \<and> (rec_status r \<noteq> EXECUTION_CLAIMED \<longrightarrow> k \<notin> set (claimed s)) \<and>
     (rec_status r = AP_PENDING \<longrightarrow> k \<notin> fst ` set (decided s)) \<and>
     (rec_status r \<in> {AP_APPROVED, EXECUTION_CLAIMED} \<longrightarrow> (k, APPROVE) \<in> set (decided s))"

definition logs_ok :: "approval_system \<Rightarrow> bool" where
  "logs_ok s \<longleftrightarrow> distinct (map fst (decided s)) \<and> fst ` set (decided s) \<subseteq> set (used_ids s) \<and>
     distinct (claimed s) \<and> (\<forall>k \<in> set (claimed s). (k, APPROVE) \<in> set (decided s))"

definition approval_inv :: "approval_system \<Rightarrow> bool" where
  "approval_inv s \<longleftrightarrow> logs_ok s \<and> wf_dict (approvals (as_ctl s)) \<and>
     (\<forall>k r. map_of (approvals (as_ctl s)) k = Some r \<longrightarrow> record_ok s k r)"

lemma approvals_set_record [simp]:
  "approvals ((set_record c k r)\<lparr>mutations := n\<rparr>) = AList.update k r (approvals c)"
  "approvals (set_record c k r) = AList.update k r (approvals c)"
  by (simp_all add: set_record_def)

text \<open>What each operation does to the records.\<close>

lemma request_effect:
  assumes "request_approval dg (c, st) step call tool risk facts emit None k now now2 = (r, c', st')"
  shows "approvals c' = approvals c \<or>
    (\<exists>x. approvals c' = AList.update k x (approvals c) \<and> rec_status x = AP_PENDING)"
  using assms
  by (auto simp: request_approval_def Let_def build_request_def
      split: if_split_asm option.split_asm emit_outcome.split_asm prod.split_asm bool.split_asm)

lemma finalize_effect:
  assumes "finalize_decision (c, st) k x d actor now = (res, c', st')" "rec_status x = AP_PENDING"
  shows "if took_effect (Inr res)
     then \<exists>y. approvals c' = AList.update k y (approvals c) \<and>
            rec_status y = (if d = APPROVE then AP_APPROVED else AP_REJECTED)
     else approvals c' = approvals c"
  using assms
  by (auto simp: finalize_decision_def Let_def took_effect_def result_ok_def plain_result_def error_result_def
      split: prod.split_asm bool.split_asm if_split_asm)

lemma late_no_effect: "\<not> took_effect (Inr (late_decision_result run r d))"
  by (simp add: late_decision_result_def Let_def took_effect_def result_ok_def plain_result_def error_result_def)

lemma error_no_effect: "\<not> took_effect (Inr (error_result run k st code))"
  by (simp add: took_effect_def result_ok_def error_result_def)

lemma decide_effect:
  assumes "decide_approval dg (c, st) run k binding d actor None rc emit now = (r, c', st')"
  shows "if took_effect r
     then \<exists>x y. map_of (approvals c) k = Some x \<and> rec_status x = AP_PENDING \<and>
            approvals c' = AList.update k y (approvals c) \<and>
            rec_status y = (if d = APPROVE then AP_APPROVED else AP_REJECTED)
     else approvals c' = approvals c"
proof -
  consider (none) "approvals c' = approvals c" "\<not> took_effect r"
    | (final) x res where "map_of (approvals c) k = Some x" "rec_status x = AP_PENDING"
        "finalize_decision (c, st) k x d (safe_key_digest dg actor) now = (res, c', st')" "r = Inr res"
    using assms
    by (auto simp: decide_approval_def publish_and_decide_def Let_def late_no_effect error_no_effect
        took_effect_def [of "Inl _"]
        split: if_split_asm option.split_asm emit_outcome.split_asm prod.split_asm)
  then show ?thesis
  proof cases
    case final
    from finalize_effect [OF final(3,2)] final(1,2,4) show ?thesis by auto
  qed simp
qed

lemma claim_effect:
  assumes "claim_execution dg c k call None rc = (r, c')"
  shows "if took_effect r
     then \<exists>x y. map_of (approvals c) k = Some x \<and> rec_status x = AP_APPROVED \<and>
            approvals c' = AList.update k y (approvals c) \<and> rec_status y = EXECUTION_CLAIMED
     else approvals c' = approvals c \<or>
       (\<exists>x y. map_of (approvals c) k = Some x \<and> rec_status x = AP_APPROVED \<and>
            approvals c' = AList.update k y (approvals c) \<and>
            rec_status y \<in> {INVALIDATED_CANCELLED, INVALIDATED_TIMEOUT})"
  using assms
  by (auto simp: claim_execution_def Let_def error_no_effect took_effect_def [of "Inl _"] inactive_status_def
      split: if_split_asm option.split_asm)
     (auto simp: took_effect_def result_ok_def plain_result_def)

lemma invalidate_loop_effect:
  assumes "invalidate_loop status emit now rs (c, st) = (r, c', st')" "distinct (map fst rs)"
    and "wf_dict (approvals c)"
  shows "wf_dict (approvals c') \<and> (\<forall>k. map_of (approvals c') k = map_of (approvals c) k \<or>
    (\<exists>x y. map_of rs k = Some x \<and> rec_status x \<noteq> EXECUTION_CLAIMED \<and>
       map_of (approvals c') k = Some y \<and> rec_status y = status))"
  using assms
proof (induction rs arbitrary: c st r)
  case (Cons p rs)
  obtain k x where p: "p = (k, x)" by (cases p)
  show ?case
  proof (cases "rec_status x \<in> {EXECUTION_CLAIMED, AP_REJECTED, INVALIDATED_CANCELLED, INVALIDATED_TIMEOUT} \<or>
      emit k = EmitRaised")
    case True
    with Cons.prems p have "(c', st') = (c, st) \<or> invalidate_loop status emit now rs (c, st) = (r, c', st')"
      by (auto split: if_split_asm)
    then consider (same) "c' = c" | (loop) "invalidate_loop status emit now rs (c, st) = (r, c', st')" by blast
    then show ?thesis
    proof cases
      case same
      with Cons.prems(3) show ?thesis by simp
    next
      case loop
      have none: "map_of rs k = None" using Cons.prems(2) p by (simp add: map_of_eq_None_iff)
      have lift: "map_of (p # rs) j = Some z" if "map_of rs j = Some z" for j z
        using that none p by (cases "j = k") simp_all
      have "distinct (map fst rs)" using Cons.prems(2) by simp
      from Cons.IH [OF loop this Cons.prems(3)] lift show ?thesis by blast
    qed
  next
    case False
    define y where "y = x\<lparr>rec_status := status, rec_woken := True\<rparr>"
    define c1 where "c1 = (set_record c k y)\<lparr>mutations := mutations c + 1\<rparr>"
    have c1: "approvals c1 = AList.update k y (approvals c)" by (simp add: c1_def)
    obtain r1 where loop: "invalidate_loop status emit now rs
        (c1, snd (waiting_to_cancelled st (ar_step_id (rec_request x)) now)) = (r1, c', st')"
      using Cons.prems(1) False p by (auto simp: Let_def c1_def y_def split: prod.splits sum.splits)
    have dist: "distinct (map fst rs)" and wf1: "wf_dict (approvals c1)"
      using Cons.prems(2,3) by (simp_all add: c1)
    have wf: "wf_dict (approvals c')" and IH: "\<And>j. map_of (approvals c') j = map_of (approvals c1) j \<or>
        (\<exists>x y. map_of rs j = Some x \<and> rec_status x \<noteq> EXECUTION_CLAIMED \<and>
           map_of (approvals c') j = Some y \<and> rec_status y = status)"
      using Cons.IH [OF loop dist wf1] by blast+
    have "map_of rs k = None" using Cons.prems(2) p by (simp add: map_of_eq_None_iff)
    have "map_of (approvals c') j = map_of (approvals c) j \<or>
        (\<exists>x y. map_of (p # rs) j = Some x \<and> rec_status x \<noteq> EXECUTION_CLAIMED \<and>
           map_of (approvals c') j = Some y \<and> rec_status y = status)" for j
    proof (cases "j = k")
      case True
      with IH [of k] \<open>map_of rs k = None\<close> False p show ?thesis by (auto simp: c1 y_def)
    next
      case False
      with IH [of j] p show ?thesis by (auto simp: c1)
    qed
    with wf show ?thesis by blast
  qed
qed simp

section \<open>Execution needs an approval\<close>

lemma record_ok_frame:
  "record_ok s k r \<Longrightarrow> record_ok (s\<lparr>as_ctl := c, as_state := st\<rparr>) k r"
  "record_ok s k r \<Longrightarrow> record_ok (s\<lparr>as_ctl := c\<rparr>) k r"
  by (simp_all add: record_ok_def)

lemma logs_ok_frame:
  "logs_ok (s\<lparr>as_ctl := c, as_state := st\<rparr>) = logs_ok s" "logs_ok (s\<lparr>as_ctl := c\<rparr>) = logs_ok s"
  by (simp_all add: logs_ok_def)

lemma inv_request:
  assumes "approval_inv s"
  shows "approval_inv (approval_post dg s (RequestOp step call tool risk facts emit k now now2))"
proof (cases "k \<in> set (used_ids s)")
  case False
  obtain r c st where q: "request_approval dg (as_ctl s, as_state s) step call tool risk facts emit None k now now2 = (r, c, st)"
    by (metis prod_cases3)
  let ?s = "s\<lparr>as_ctl := c, as_state := st, used_ids := k # used_ids s\<rparr>"
  have logs: "logs_ok ?s" using assms by (auto simp: approval_inv_def logs_ok_def)
  have sub: "fst ` set (decided s) \<subseteq> set (used_ids s)" "\<forall>j \<in> set (claimed s). (j, APPROVE) \<in> set (decided s)"
    using assms by (simp_all add: approval_inv_def logs_ok_def)
  have fresh: "k \<notin> fst ` set (decided s)" using sub(1) False by blast
  have "k \<notin> set (claimed s)"
  proof
    assume "k \<in> set (claimed s)"
    with sub(2) have "(k, APPROVE) \<in> set (decided s)" by blast
    from imageI [OF this, of fst] fresh show False by simp
  qed
  note fresh = fresh this
  have old: "record_ok ?s j x" if "map_of (approvals (as_ctl s)) j = Some x" for j x
    using assms that by (auto simp: approval_inv_def record_ok_def)
  have new: "record_ok ?s k x" if "rec_status x = AP_PENDING" for x
    using fresh that by (simp add: record_ok_def)
  have "wf_dict (approvals (as_ctl s))" using assms by (simp add: approval_inv_def)
  with request_effect [OF q] logs old new have "approval_inv ?s"
    by (auto simp: approval_inv_def split: if_split_asm)
  with False q show ?thesis by simp
qed (use assms in simp)

lemma inv_decide:
  assumes "approval_inv s"
  shows "approval_inv (approval_post dg s (DecideOp run k binding d actor rc emit now))"
proof -
  obtain r c st where q: "decide_approval dg (as_ctl s, as_state s) run k binding d actor None rc emit now = (r, c, st)"
    by (metis prod_cases3)
  note eff = decide_effect [OF q]
  show ?thesis
  proof (cases "took_effect r")
    case False
    with eff q assms show ?thesis by (simp add: approval_inv_def logs_ok_def record_ok_def)
  next
    case True
    then obtain x y where xy: "map_of (approvals (as_ctl s)) k = Some x" "rec_status x = AP_PENDING"
      "approvals c = AList.update k y (approvals (as_ctl s))"
      "rec_status y = (if d = APPROVE then AP_APPROVED else AP_REJECTED)" using eff by auto
    let ?s = "s\<lparr>as_ctl := c, as_state := st, decided := (k, d) # decided s\<rparr>"
    have x: "record_ok s k x" and logs: "logs_ok s" and wf: "wf_dict (approvals (as_ctl s))"
      using assms xy(1) by (auto simp: approval_inv_def)
    have "logs_ok ?s" using logs x xy(2) by (auto simp: logs_ok_def record_ok_def)
    moreover have "record_ok ?s j z" if "map_of (approvals (as_ctl s)) j = Some z" "j \<noteq> k" for j z
      using assms that by (auto simp: approval_inv_def record_ok_def)
    moreover have "record_ok ?s k y" using x xy(2,4) by (auto simp: record_ok_def)
    ultimately have "approval_inv ?s" using wf by (auto simp: approval_inv_def xy(3) split: if_splits)
    with True q show ?thesis by simp
  qed
qed

lemma inv_claim:
  assumes "approval_inv s"
  shows "approval_inv (approval_post dg s (ClaimOp k call rc))"
proof -
  obtain r c where q: "claim_execution dg (as_ctl s) k call None rc = (r, c)" by fastforce
  note eff = claim_effect [OF q]
  let ?s = "s\<lparr>as_ctl := c, claimed := (if took_effect r then k # claimed s else claimed s)\<rparr>"
  have "approval_inv ?s"
  proof (cases "approvals c = approvals (as_ctl s) \<and> \<not> took_effect r")
    case True
    with assms show ?thesis by (simp add: approval_inv_def logs_ok_def record_ok_def)
  next
    case False
    with eff obtain x y where xy: "map_of (approvals (as_ctl s)) k = Some x" "rec_status x = AP_APPROVED"
      "approvals c = AList.update k y (approvals (as_ctl s))"
      "if took_effect r then rec_status y = EXECUTION_CLAIMED
       else rec_status y \<in> {INVALIDATED_CANCELLED, INVALIDATED_TIMEOUT}"
      by (auto split: if_splits)
    have x: "record_ok s k x" and logs: "logs_ok s" and wf: "wf_dict (approvals (as_ctl s))"
      using assms xy(1) by (auto simp: approval_inv_def)
    have "logs_ok ?s" using logs x xy(2) by (auto simp: logs_ok_def record_ok_def)
    moreover have "record_ok ?s j z" if "map_of (approvals (as_ctl s)) j = Some z" "j \<noteq> k" for j z
      using assms that by (auto simp: approval_inv_def record_ok_def)
    moreover have "record_ok ?s k y" using x xy(2,4) by (auto simp: record_ok_def split: if_splits)
    ultimately show ?thesis using wf by (auto simp: approval_inv_def xy(3) simp del: fun_upd_apply split: if_splits)
       (auto split: if_splits)
  qed
  with q show ?thesis by simp
qed

lemma inv_invalidate:
  assumes "approval_inv s"
  shows "approval_inv (approval_post dg s (InvalidateOp status emit now))"
proof (cases "status \<in> {INVALIDATED_CANCELLED, INVALIDATED_TIMEOUT}")
  case False
  with assms show ?thesis by (simp add: invalidate_def approval_inv_def logs_ok_def record_ok_def)
next
  case True
  obtain r c st where q: "invalidate_loop status emit now (approvals (as_ctl s)) (as_ctl s, as_state s) = (r, c, st)"
    by (metis prod_cases3)
  have wf: "wf_dict (approvals (as_ctl s))" using assms by (simp add: approval_inv_def)
  note eff = invalidate_loop_effect [OF q wf wf]
  let ?s = "s\<lparr>as_ctl := c, as_state := st\<rparr>"
  have "record_ok ?s k y" if "map_of (approvals c) k = Some y" for k y
  proof -
    have "map_of (approvals c) k = map_of (approvals (as_ctl s)) k \<or>
        (\<exists>x y. map_of (approvals (as_ctl s)) k = Some x \<and> rec_status x \<noteq> EXECUTION_CLAIMED \<and>
           map_of (approvals c) k = Some y \<and> rec_status y = status)" using eff by blast
    with that consider "map_of (approvals (as_ctl s)) k = Some y"
      | x where "map_of (approvals (as_ctl s)) k = Some x" "rec_status x \<noteq> EXECUTION_CLAIMED" "rec_status y = status"
      by auto
    then show ?thesis using assms True by cases (auto simp: approval_inv_def record_ok_def)
  qed
  then have "approval_inv ?s" using eff assms by (simp add: approval_inv_def logs_ok_def)
  with True q show ?thesis by (simp add: invalidate_def)
qed

lemma approval_post_inv: "approval_inv s \<Longrightarrow> approval_inv (approval_post dg s op)"
proof (cases op)
  case CloseOp
  assume "approval_inv s"
  with CloseOp show ?thesis by (simp add: approval_inv_def close_controller_def logs_ok_def)
next
  case (StateOp st)
  assume "approval_inv s"
  with StateOp show ?thesis by (simp add: approval_inv_def logs_ok_def record_ok_def)
qed (simp_all only: inv_request inv_decide inv_claim inv_invalidate)

interpretation approval_machine: invariant_machine "approval_post dg" approval_inv for dg
  by unfold_locales (rule approval_post_inv)

definition new_approval_system :: "approval_controller \<Rightarrow> agent_state \<Rightarrow> approval_system" where
  "new_approval_system c st = \<lparr>as_ctl = c, as_state = st, used_ids = [], decided = [], claimed = []\<rparr>"

text \<open>
  C3. Nothing is executed without a human approval, and nothing twice: over any history of requests,
  decisions, claims, invalidations, closing and foreign changes of the Run, every approval is
  decided at most once, every granted execution claim belongs to an approval that was decided
  APPROVE (so never REJECT), and no approval is claimed a second time.\<close>

theorem execution_needs_approval:
  assumes "new_controller run = Inr c" "s = after_all (approval_post dg) (new_approval_system c st) ops"
  shows "distinct (map fst (decided s)) \<and> distinct (claimed s) \<and>
    (\<forall>k \<in> set (claimed s). (k, APPROVE) \<in> set (decided s) \<and> (k, REJECT) \<notin> set (decided s))"
proof -
  have "approval_inv (new_approval_system c st)"
    using assms(1)
    by (auto simp: approval_inv_def new_approval_system_def logs_ok_def new_controller_def split: if_splits)
  then have "approval_inv s" unfolding assms(2) by (rule approval_machine.history_inv)
  then have logs: "logs_ok s" by (simp add: approval_inv_def)
  have "(k, REJECT) \<notin> set (decided s)" if "(k, APPROVE) \<in> set (decided s)" for k
    using logs that eq_key_imp_eq_value [of "decided s" k APPROVE REJECT] by (auto simp: logs_ok_def)
  with logs show ?thesis by (auto simp: logs_ok_def)
qed

definition sample_digests :: digests where
  "sample_digests = \<lparr>key_digest = \<lambda>s. replicate 64 CHR ''0'', payload_digest = \<lambda>p. replicate 64 CHR ''1''\<rparr>"

definition sample_call :: tool_invocation where
  "sample_call = \<lparr>inv_id = ''i'', inv_tool_name = ''t'', inv_arguments_digest = replicate 64 CHR ''2'',
     inv_idempotency_key = None, inv_resource_key = None\<rparr>"

definition sample_controller :: approval_controller where
  "sample_controller = \<lparr>ctl_run_id = ''r'', ctl_closed = False, approvals = [], active_by_invocation = [],
     mutations = 0\<rparr>"

text \<open>Step a asks for an approval; a human approves; the worker claims it twice.\<close>

definition sample_ops :: "approval_op list" where
  "sample_ops =
     [RequestOp ''a'' sample_call ''t'' None [] NoEmitter ''k'' (DT (Some 0) 5) (DT (Some 0) 6),
      DecideOp ''r'' ''k'' (replicate 64 CHR ''1'') APPROVE None \<lparr>run_cancelled = False, run_remaining = None\<rparr>
        Emitted (DT (Some 0) 7),
      ClaimOp ''k'' sample_call \<lparr>run_cancelled = False, run_remaining = None\<rparr>,
      ClaimOp ''k'' sample_call \<lparr>run_cancelled = False, run_remaining = None\<rparr>]"

lemma sample_history:
  "claimed (after_all (approval_post sample_digests) (new_approval_system sample_controller sample_state) sample_ops) = [''k'']"
  by code_simp

theorem execution_needs_approval_witness:
  "new_controller ''r'' = Inr sample_controller \<and>
   (let s = after_all (approval_post sample_digests) (new_approval_system sample_controller sample_state) sample_ops
    in claimed s = [''k''] \<and> (''k'', REJECT) \<notin> set (decided s))"
proof -
  have "new_controller ''r'' = Inr sample_controller" by code_simp
  from execution_needs_approval [OF this refl, of sample_digests sample_state sample_ops] this sample_history
  show ?thesis by (simp add: Let_def)
qed

section \<open>The type of the records\<close>

text \<open>Every record is stored under its own id, of this Run, well formed, with the decision its status tells.\<close>

definition typed_record :: "string \<Rightarrow> string \<Rightarrow> approval_record \<Rightarrow> bool" where
  "typed_record run k r \<longleftrightarrow>
     rec_approval_id r = k \<and> ar_approval_id (rec_request r) = k \<and> ar_run_id (rec_request r) = run \<and>
     request_check (rec_request r) = None \<and> rec_status r \<noteq> INVALIDATED_RUN_TERMINAL \<and>
     (rec_status r = AP_PENDING \<longrightarrow> rec_decision r = None \<and> \<not> rec_woken r) \<and>
     (rec_status r \<noteq> AP_PENDING \<longrightarrow> rec_woken r) \<and>
     (rec_status r \<in> {AP_APPROVED, EXECUTION_CLAIMED} \<longrightarrow>
        some_and (rec_decision r) (\<lambda>x. ad_approval_id x = k \<and> ad_decision x = APPROVE)) \<and>
     (rec_status r = AP_REJECTED \<longrightarrow>
        some_and (rec_decision r) (\<lambda>x. ad_approval_id x = k \<and> ad_decision x = REJECT))"

definition typed_records :: "approval_controller \<Rightarrow> bool" where
  "typed_records c \<longleftrightarrow> wf_dict (approvals c) \<and>
     (\<forall>k r. map_of (approvals c) k = Some r \<longrightarrow> typed_record (ctl_run_id c) k r)"

lemma typed_update:
  assumes "typed_records c" "typed_record (ctl_run_id c) k r" "approvals c' = AList.update k r (approvals c)"
    "ctl_run_id c' = ctl_run_id c"
  shows "typed_records c'"
  using assms by (simp add: typed_records_def split: if_split)

lemma ctl_run_id_set_record [simp]: "ctl_run_id (set_record c k r) = ctl_run_id c"
  by (simp add: set_record_def)

lemma typed_request:
  assumes "request_approval dg (c, st) step call tool risk facts emit None k now now2 = (r, c', st')"
    and "typed_records c"
  shows "typed_records c' \<and> ctl_run_id c' = ctl_run_id c"
proof -
  let ?q = "build_request dg (ctl_run_id c) step call tool risk facts k now"
  let ?x = "\<lparr>rec_approval_id = k, rec_request = ?q, rec_decision = None, rec_status = AP_PENDING, rec_woken = False\<rparr>"
  have id: "ar_approval_id ?q = k" "ar_run_id ?q = ctl_run_id c" by (simp_all add: build_request_def)
  have "c' = c \<or> (approvals c' = AList.update k ?x (approvals c) \<and> ctl_run_id c' = ctl_run_id c \<and>
      request_check ?q = None)"
    using assms(1)
    by (auto simp: request_approval_def Let_def id
        split: if_split_asm option.split_asm emit_outcome.split_asm prod.split_asm bool.split_asm)
  moreover have "typed_record (ctl_run_id c) k ?x" if "request_check ?q = None"
    using that by (simp add: typed_record_def id)
  ultimately show ?thesis using typed_update [OF assms(2)] assms(2) by blast
qed

lemma typed_finalize:
  assumes "finalize_decision (c, st) k x d actor now = (res, c', st')"
    and "typed_records c" "map_of (approvals c) k = Some x"
  shows "typed_records c' \<and> ctl_run_id c' = ctl_run_id c"
proof -
  have x: "typed_record (ctl_run_id c) k x" using assms(2,3) by (simp add: typed_records_def)
  have "c' = c \<or> (\<exists>y. approvals c' = AList.update k y (approvals c) \<and> ctl_run_id c' = ctl_run_id c \<and>
      typed_record (ctl_run_id c) k y)"
    using assms(1) x
    by (cases d)
       (auto simp: finalize_decision_def Let_def typed_record_def split: prod.split_asm bool.split_asm if_split_asm)
  then show ?thesis using typed_update [OF assms(2)] assms(2) by blast
qed

lemma typed_decide:
  assumes "decide_approval dg (c, st) run k binding d actor None rc emit now = (r, c', st')"
    and "typed_records c"
  shows "typed_records c' \<and> ctl_run_id c' = ctl_run_id c"
proof -
  consider "c' = c"
    | x res where "map_of (approvals c) k = Some x"
        "finalize_decision (c, st) k x d (safe_key_digest dg actor) now = (res, c', st')"
    using assms(1)
    by (auto simp: decide_approval_def publish_and_decide_def Let_def
        split: if_split_asm option.split_asm emit_outcome.split_asm prod.split_asm)
  then show ?thesis using assms(2) by cases (auto dest: typed_finalize)
qed

lemma typed_claim:
  assumes "claim_execution dg c k call None rc = (r, c')" "typed_records c"
  shows "typed_records c' \<and> ctl_run_id c' = ctl_run_id c"
proof -
  have x: "typed_record (ctl_run_id c) k x" if "map_of (approvals c) k = Some x" for x
    using assms(2) that by (simp add: typed_records_def)
  have "c' = c \<or> (\<exists>y. approvals c' = AList.update k y (approvals c) \<and> ctl_run_id c' = ctl_run_id c \<and>
      typed_record (ctl_run_id c) k y)"
    using assms(1) x
    by (auto simp: claim_execution_def Let_def typed_record_def inactive_status_def
        split: if_split_asm option.split_asm)
  then show ?thesis using typed_update [OF assms(2)] assms(2) by blast
qed

lemma typed_invalidate_loop:
  assumes "invalidate_loop status emit now rs (c, st) = (r, c', st')"
    and "status \<in> {INVALIDATED_CANCELLED, INVALIDATED_TIMEOUT}"
    and "typed_records c" "\<forall>(k, x) \<in> set rs. typed_record (ctl_run_id c) k x"
  shows "typed_records c' \<and> ctl_run_id c' = ctl_run_id c"
  using assms
proof (induction rs arbitrary: c st r)
  case (Cons p rs)
  obtain k x where p: "p = (k, x)" by (cases p)
  let ?y = "x\<lparr>rec_status := status, rec_woken := True\<rparr>"
  let ?c1 = "(set_record c k ?y)\<lparr>mutations := mutations c + 1\<rparr>"
  have "typed_record (ctl_run_id c) k ?y" using Cons.prems(2,4) p by (auto simp: typed_record_def)
  then have c1: "typed_records ?c1" using typed_update [OF Cons.prems(3)] by simp
  have tl: "\<forall>(k, x) \<in> set rs. typed_record (ctl_run_id c) k x" using Cons.prems(4) by simp
  consider "c' = c" | "invalidate_loop status emit now rs (c, st) = (r, c', st')"
    | r1 st1 where "invalidate_loop status emit now rs (?c1, st1) = (r1, c', st')"
    using Cons.prems(1) p by (auto simp: Let_def split: if_split_asm prod.splits sum.splits)
  then show ?case
  proof cases
    case 1
    with Cons.prems(3) show ?thesis by simp
  next
    case 2
    from Cons.IH [OF this Cons.prems(2,3) tl] show ?thesis .
  next
    case 3
    from Cons.IH [OF this Cons.prems(2) c1] tl show ?thesis by simp
  qed
qed simp

lemma approval_post_typed:
  assumes "typed_records (as_ctl s) \<and> ctl_run_id (as_ctl s) = run"
  shows "typed_records (as_ctl (approval_post dg s op)) \<and> ctl_run_id (as_ctl (approval_post dg s op)) = run"
proof (cases op)
  case (InvalidateOp status emit now)
  have "\<forall>(k, x) \<in> set (approvals (as_ctl s)). typed_record (ctl_run_id (as_ctl s)) k x"
    using assms by (auto simp: typed_records_def)
  with assms InvalidateOp typed_invalidate_loop [of status emit now "approvals (as_ctl s)" "as_ctl s" "as_state s"]
  show ?thesis by (auto simp: invalidate_def split: prod.split)
next
  case CloseOp
  with assms show ?thesis by (simp add: close_controller_def typed_records_def)
qed (use assms in \<open>auto split: prod.split dest: typed_request typed_decide typed_claim\<close>)

interpretation record_machine: invariant_machine "approval_post dg"
  "\<lambda>s. typed_records (as_ctl s) \<and> ctl_run_id (as_ctl s) = run" for dg run
  by unfold_locales (rule approval_post_typed)



end
