(* ===== verification/Durable_Approval.thy ===== *)
theory Durable_Approval
  imports Approval Run_Control
begin

text \<open>
  \<^verbatim>\<open>core/runtime/durable_approval.py\<close>: approvals and execution claims in the database, shared by
  all processes. Each method is one transaction under the advisory lock of its Run; an exception
  rolls it back, so the tables are unchanged where an error is returned. The table of approvals is a
  dictionary by its primary key, the table of claims a list of rows. Arguments stand for the server
  default \<^verbatim>\<open>now()\<close>, for \<^verbatim>\<open>datetime.now(UTC)\<close> and for the fresh claim id. A statement that
  exceeds the width of a column fails like any other and leaves the tables as they are; the
  widths are not modelled.
\<close>

declare map_of_eq_Some_iff [simp del] Some_eq_map_of_iff [simp del]

section \<open>Tables\<close>

datatype approval_row_state = ROW_PENDING | ROW_APPROVED | ROW_REJECTED | ROW_INVALIDATED

record durable_approval_row =
  row_run_id :: string
  row_step_id :: string
  row_invocation_id :: string
  row_tool_name :: string
  row_invocation_identity_digest :: string
  row_arguments_digest :: string
  row_idempotency_key_digest :: "string option"
  row_resource_key_digest :: "string option"
  row_invocation_binding_digest :: string
  row_risk_level :: "string option"
  row_risk_facts :: string
  row_state :: approval_row_state
  row_decision :: "approval_decision_value option"
  row_actor_id_digest :: "string option"
  row_invalidated_reason :: "string option"
  row_created_at :: py_datetime
  row_decided_at :: "py_datetime option"
  row_invalidated_at :: "py_datetime option"
  row_version :: int

record durable_execution_claim =
  cl_claim_id :: string
  cl_approval_id :: string
  cl_run_id :: string
  cl_binding_digest :: string
  cl_owner_id :: string
  cl_fencing_token :: int
  cl_created_at :: py_datetime

record approval_db =
  approval_rows :: "(string, durable_approval_row) dict"
  claim_rows :: "durable_execution_claim list"

datatype durable_error =
    BindingConflict | ApprovalBindingMismatch | NotApproved | ClaimExists | ResumeMismatch
  | ReasonInvalid | ClaimOwnershipLost | KeyViolation | RequestInvalid string

section \<open>Risk facts in one column\<close>

text \<open>\<^verbatim>\<open>sep.join(xs)\<close> and \<^verbatim>\<open>s.split(sep)\<close> for a separator of one character.\<close>

fun join_on :: "char \<Rightarrow> string list \<Rightarrow> string" where
  "join_on c [] = []"
| "join_on c [x] = x"
| "join_on c (x # y # ys) = x @ c # join_on c (y # ys)"

fun split_on :: "char \<Rightarrow> string \<Rightarrow> string list" where
  "split_on c [] = [[]]"
| "split_on c (a # s) =
     (if a = c then [] # split_on c s
      else case split_on c s of [] \<Rightarrow> [[a]] | x # xs \<Rightarrow> (a # x) # xs)"

definition store_facts :: "string list \<Rightarrow> string" where
  "store_facts facts = join_on CHR ''|'' (sort facts)"

definition load_facts :: "string \<Rightarrow> string list" where
  "load_facts s = filter (\<lambda>x. x \<noteq> []) (split_on CHR ''|'' s)"

section \<open>Operations\<close>

definition durable_row_status :: "durable_approval_row \<Rightarrow> approval_status" where
  "durable_row_status r =
     (case row_state r of
        ROW_INVALIDATED \<Rightarrow>
          (if row_invalidated_reason r = Some ''CANCELLED'' then INVALIDATED_CANCELLED
           else if row_invalidated_reason r = Some ''RUN_TERMINAL'' then INVALIDATED_RUN_TERMINAL
           else INVALIDATED_TIMEOUT)
      | ROW_PENDING \<Rightarrow> AP_PENDING
      | ROW_APPROVED \<Rightarrow> AP_APPROVED
      | ROW_REJECTED \<Rightarrow> AP_REJECTED)"

text \<open>\<^verbatim>\<open>_request\<close>: the constructor checks the request again.\<close>

definition row_request :: "string \<Rightarrow> durable_approval_row \<Rightarrow> approval_request" where
  "row_request k r =
     \<lparr>ar_approval_id = k, ar_run_id = row_run_id r, ar_step_id = row_step_id r,
      ar_invocation_id = row_invocation_id r, ar_tool_name = row_tool_name r,
      ar_invocation_identity_digest = row_invocation_identity_digest r,
      ar_arguments_digest = row_arguments_digest r,
      ar_idempotency_key_digest = row_idempotency_key_digest r,
      ar_resource_key_digest = row_resource_key_digest r,
      ar_risk_level = row_risk_level r, ar_risk_facts = load_facts (row_risk_facts r),
      ar_invocation_binding_digest = row_invocation_binding_digest r,
      ar_requested_at = row_created_at r\<rparr>"

definition checked_request :: "string \<Rightarrow> durable_approval_row \<Rightarrow> durable_error + approval_request" where
  "checked_request k r =
     (case request_check (row_request k r) of
        Some field \<Rightarrow> Inl (RequestInvalid field)
      | None \<Rightarrow> Inr (row_request k r))"

definition new_approval_row :: "approval_request \<Rightarrow> py_datetime \<Rightarrow> durable_approval_row" where
  "new_approval_row q now =
     \<lparr>row_run_id = ar_run_id q, row_step_id = ar_step_id q, row_invocation_id = ar_invocation_id q,
      row_tool_name = ar_tool_name q, row_invocation_identity_digest = ar_invocation_identity_digest q,
      row_arguments_digest = ar_arguments_digest q,
      row_idempotency_key_digest = ar_idempotency_key_digest q,
      row_resource_key_digest = ar_resource_key_digest q,
      row_invocation_binding_digest = ar_invocation_binding_digest q,
      row_risk_level = ar_risk_level q, row_risk_facts = store_facts (ar_risk_facts q),
      row_state = ROW_PENDING, row_decision = None, row_actor_id_digest = None,
      row_invalidated_reason = None, row_created_at = now, row_decided_at = None,
      row_invalidated_at = None, row_version = 1\<rparr>"

definition set_row :: "approval_db \<Rightarrow> string \<Rightarrow> durable_approval_row \<Rightarrow> approval_db" where
  "set_row db k r = db\<lparr>approval_rows := AList.update k r (approval_rows db)\<rparr>"

definition create_durable ::
  "approval_db \<Rightarrow> approval_request \<Rightarrow> py_datetime \<Rightarrow> (durable_error + approval_request) \<times> approval_db" where
  "create_durable db q now =
     (case find (\<lambda>(k, r). row_run_id r = ar_run_id q \<and> row_invocation_id r = ar_invocation_id q)
             (approval_rows db) of
        Some (k, r) \<Rightarrow>
          if row_invocation_binding_digest r \<noteq> ar_invocation_binding_digest q
          then (Inl BindingConflict, db) else (checked_request k r, db)
      | None \<Rightarrow>
          if map_of (approval_rows db) (ar_approval_id q) \<noteq> None then (Inl KeyViolation, db)
          else (Inr q, set_row db (ar_approval_id q) (new_approval_row q now)))"

definition get_durable :: "approval_db \<Rightarrow> string \<Rightarrow> durable_error + approval_request option" where
  "get_durable db k =
     (case map_of (approval_rows db) k of
        None \<Rightarrow> Inr None
      | Some r \<Rightarrow> (case checked_request k r of Inl e \<Rightarrow> Inl e | Inr q \<Rightarrow> Inr (Some q)))"

definition status_durable :: "approval_db \<Rightarrow> string \<Rightarrow> approval_status option" where
  "status_durable db k = map_option durable_row_status (map_of (approval_rows db) k)"

definition invalidate_locked :: "durable_approval_row \<Rightarrow> string \<Rightarrow> py_datetime \<Rightarrow> durable_approval_row" where
  "invalidate_locked r why now =
     r\<lparr>row_state := ROW_INVALIDATED, row_invalidated_reason := Some why,
       row_invalidated_at := Some now, row_version := row_version r + 1\<rparr>"

text \<open>Whether a Run still takes decisions: its control row is ACTIVE and has no cancel command.\<close>

definition takes_decisions :: "control_db \<Rightarrow> string \<Rightarrow> bool" where
  "takes_decisions ctl run =
     some_and (map_of (controls ctl) run) (\<lambda>c. rc_state c = RC_ACTIVE \<and> rc_cancel_command_id c = None)"

definition decide_durable ::
  "digests \<Rightarrow> control_db \<Rightarrow> approval_db \<Rightarrow> string \<Rightarrow> string \<Rightarrow> string \<Rightarrow> approval_decision_value
     \<Rightarrow> string option \<Rightarrow> py_datetime \<Rightarrow> approval_command_result \<times> approval_db" where
  "decide_durable dg ctl db run k binding d actor now =
     (case map_of (approval_rows db) k of
        None \<Rightarrow> (error_result run k AP_PENDING UNKNOWN_APPROVAL, db)
      | Some r \<Rightarrow>
          if row_run_id r \<noteq> run then (error_result run k AP_PENDING UNKNOWN_APPROVAL, db)
          else if row_invocation_binding_digest r \<noteq> binding
          then (error_result run k (durable_row_status r) BINDING_MISMATCH, db)
          else if row_state r = ROW_INVALIDATED
          then (error_result run k (durable_row_status r) INVALIDATED, db)
          else if row_state r \<noteq> ROW_PENDING then
            (let same = (row_decision r = Some d)
             in ((plain_result run k (durable_row_status r))
                   \<lparr>cr_idempotent := same,
                    cr_safe_error_code := (if same then None else Some DECISION_CONFLICT),
                    cr_decided_at := row_decided_at r\<rparr>, db))
          else if \<not> takes_decisions ctl run
          then (error_result run k INVALIDATED_CANCELLED INVALIDATED,
                set_row db k (invalidate_locked r ''CANCELLED'' now))
          else
            (let r' = r\<lparr>row_state := (if d = APPROVE then ROW_APPROVED else ROW_REJECTED),
                        row_decision := Some d, row_actor_id_digest := safe_key_digest dg actor,
                        row_decided_at := Some now, row_version := row_version r + 1\<rparr>
             in ((plain_result run k (durable_row_status r'))\<lparr>cr_decided_at := Some now\<rparr>,
                 set_row db k r')))"

text \<open>\<^verbatim>\<open>invalidate_run\<close>; \<open>clock\<close> gives the reading taken for each row.\<close>

definition invalidates :: "string \<Rightarrow> durable_approval_row \<Rightarrow> bool" where
  "invalidates run r \<longleftrightarrow> row_run_id r = run \<and> row_state r = ROW_PENDING"

definition invalidate_run ::
  "approval_db \<Rightarrow> string \<Rightarrow> string \<Rightarrow> (string \<Rightarrow> py_datetime)
     \<Rightarrow> (durable_error + approval_command_result list) \<times> approval_db" where
  "invalidate_run db run why clock =
     (if why \<notin> {''CANCELLED'', ''DEADLINE_EXCEEDED'', ''RUN_TERMINAL''} then (Inl ReasonInvalid, db)
      else
        (Inr (map (\<lambda>(k, r). plain_result run k (durable_row_status (invalidate_locked r why (clock k))))
                (filter (\<lambda>(k, r). invalidates run r) (approval_rows db))),
         db\<lparr>approval_rows := map (\<lambda>(k, r). (k, if invalidates run r
              then invalidate_locked r why (clock k) else r)) (approval_rows db)\<rparr>))"

definition claim_of :: "approval_db \<Rightarrow> string \<Rightarrow> durable_execution_claim option" where
  "claim_of db k = find (\<lambda>c. cl_approval_id c = k) (claim_rows db)"

definition claim_durable ::
  "control_db \<Rightarrow> approval_db \<Rightarrow> run_lease \<Rightarrow> string \<Rightarrow> string \<Rightarrow> int \<Rightarrow> string \<Rightarrow> py_datetime
     \<Rightarrow> (durable_error + durable_execution_claim) \<times> approval_db" where
  "claim_durable ctl db l k binding db_now claim_id now =
     (case current_row ctl l db_now of
        None \<Rightarrow> (Inl ClaimOwnershipLost, db)
      | Some c \<Rightarrow>
          (case map_of (approval_rows db) k of
             None \<Rightarrow> (Inl ApprovalBindingMismatch, db)
           | Some r \<Rightarrow>
               if row_run_id r \<noteq> lease_run_id l \<or> row_invocation_binding_digest r \<noteq> binding
               then (Inl ApprovalBindingMismatch, db)
               else if row_state r \<noteq> ROW_APPROVED then (Inl NotApproved, db)
               else if claim_of db k \<noteq> None then (Inl ClaimExists, db)
               else if claim_id \<in> cl_claim_id ` set (claim_rows db) then (Inl KeyViolation, db)
               else
                 (let x = \<lparr>cl_claim_id = claim_id, cl_approval_id = k, cl_run_id = lease_run_id l,
                           cl_binding_digest = binding, cl_owner_id = lease_owner_id l,
                           cl_fencing_token = lease_fencing_token l, cl_created_at = now\<rparr>
                  in (Inr x, db\<lparr>claim_rows := claim_rows db @ [x]\<rparr>))))"

definition resume_claim ::
  "control_db \<Rightarrow> approval_db \<Rightarrow> run_lease \<Rightarrow> string \<Rightarrow> string \<Rightarrow> int
     \<Rightarrow> durable_error + durable_execution_claim" where
  "resume_claim ctl db l k binding db_now =
     (case current_row ctl l db_now of
        None \<Rightarrow> Inl ClaimOwnershipLost
      | Some c \<Rightarrow>
          (case (map_of (approval_rows db) k, claim_of db k) of
             (Some r, Some x) \<Rightarrow>
               if row_state r = ROW_APPROVED \<and> row_run_id r = lease_run_id l \<and>
                  row_invocation_binding_digest r = binding \<and> cl_run_id x = lease_run_id l \<and>
                  cl_binding_digest x = binding
               then Inr x else Inl ResumeMismatch
           | _ \<Rightarrow> Inl ResumeMismatch))"

section \<open>Facts survive storage exactly when they are plain\<close>

lemma split_on_nonempty: "split_on c s \<noteq> []"
  by (induction s) (auto split: list.split)

lemma split_on_no_sep: "x \<in> set (split_on c s) \<Longrightarrow> c \<notin> set x"
proof (induction s arbitrary: x)
  case (Cons a s)
  then show ?case by (cases "split_on c s") (auto split: if_split_asm)
qed simp

lemma split_on_append: "c \<notin> set x \<Longrightarrow> split_on c (x @ c # s) = x # split_on c s"
  by (induction x) auto

lemma split_on_plain: "c \<notin> set x \<Longrightarrow> split_on c x = [x]"
  by (induction x) auto

lemma split_join: "xs \<noteq> [] \<Longrightarrow> \<forall>x \<in> set xs. c \<notin> set x \<Longrightarrow> split_on c (join_on c xs) = xs"
  by (induction c xs rule: join_on.induct) (auto simp: split_on_append split_on_plain)

definition plain_facts :: "string list \<Rightarrow> bool" where
  "plain_facts facts \<longleftrightarrow> (\<forall>x \<in> set facts. x \<noteq> [] \<and> CHR ''|'' \<notin> set x)"

lemma load_facts_plain: "plain_facts (load_facts s)"
  by (auto simp: plain_facts_def load_facts_def dest: split_on_no_sep)

lemma load_store_plain: "plain_facts facts \<Longrightarrow> load_facts (store_facts facts) = sort facts"
proof (cases "facts = []")
  case False
  assume "plain_facts facts"
  moreover from False have "sort facts \<noteq> []" by (metis set_empty set_sort)
  ultimately have "split_on CHR ''|'' (join_on CHR ''|'' (sort facts)) = sort facts"
    by (intro split_join) (auto simp: plain_facts_def)
  with \<open>plain_facts facts\<close> show ?thesis
    by (auto simp: store_facts_def load_facts_def plain_facts_def intro!: filter_True)
qed (simp add: store_facts_def load_facts_def)

lemma load_store_iff: "sort (load_facts (store_facts facts)) = sort facts \<longleftrightarrow> plain_facts facts"
proof
  assume "sort (load_facts (store_facts facts)) = sort facts"
  then have "set (load_facts (store_facts facts)) = set facts" by (metis set_sort)
  with load_facts_plain [of "store_facts facts"] show "plain_facts facts" by (simp add: plain_facts_def)
qed (simp add: load_store_plain sorted_sort_id)

lemma find_SomeD: "find P xs = Some x \<Longrightarrow> x \<in> set xs \<and> P x"
  by (induction xs) (auto split: if_split_asm)

lemma create_fresh:
  assumes "create_durable db q now = (Inr q, db')" "map_of (approval_rows db) (ar_approval_id q) = None"
  shows "approval_rows db' = AList.update (ar_approval_id q) (new_approval_row q now) (approval_rows db)"
proof (cases "find (\<lambda>(k, r). row_run_id r = ar_run_id q \<and> row_invocation_id r = ar_invocation_id q)
    (approval_rows db)")
  case None
  with assms show ?thesis by (auto simp: create_durable_def set_row_def)
next
  case (Some p)
  then have "p \<in> set (approval_rows db)" by (auto dest: find_SomeD)
  then have p: "fst p \<in> fst ` set (approval_rows db)" by simp
  from Some assms(1) have "checked_request (fst p) (snd p) = Inr q"
    by (simp add: create_durable_def split: if_split_asm prod.split_asm)
  then have "ar_approval_id q = fst p"
    by (auto simp: checked_request_def row_request_def split: option.split_asm)
  with p assms(2) show ?thesis by (simp add: map_of_eq_None_iff)
qed

text \<open>
  C24. An approval survives the database exactly when its risk facts are plain. A request that a worker
  builds for an invocation is stored and read back; if no fact is empty or contains the
  separator, the later execution claim for this invocation passes the binding check and is granted,
  otherwise it is refused with a binding mismatch although a human approved it. The hypothesis on
  the digest excludes a collision between the two bindings.\<close>

theorem durable_binding_exact:
  assumes "q = build_request dg run step call tool risk facts k now"
    and "create_durable db q created = (Inr q, db')" "map_of (approval_rows db) k = None"
    and "get_durable db' k = Inr (Some q')"
    and "compute_invocation_binding_digest dg call risk (ar_risk_facts q') =
           compute_invocation_binding_digest dg call risk facts \<longrightarrow>
         sort (ar_risk_facts q') = sort facts"
  shows "claim_execution_durable dg run k call \<lparr>da_request = Some q', da_has_lease = True, da_claim = Inr c\<rparr> =
    (if plain_facts facts
     then Inr ((plain_result run k EXECUTION_CLAIMED)
            \<lparr>cr_invocation_binding_digest := Some (ar_invocation_binding_digest q), cr_execution_claim_id := Some c\<rparr>)
     else Inr (error_result run k AP_APPROVED CLAIM_BINDING_MISMATCH))"
proof -
  have k: "ar_approval_id q = k" by (simp add: assms(1) build_request_def)
  from create_fresh [OF assms(2)] assms(3) k
  have "approval_rows db' = AList.update k (new_approval_row q created) (approval_rows db)" by simp
  with assms(4) have q': "q' = row_request k (new_approval_row q created)"
    by (auto simp: get_durable_def checked_request_def split: option.split_asm)
  have fields: "ar_risk_facts q' = load_facts (store_facts facts)" "ar_risk_level q' = risk"
    "ar_invocation_binding_digest q' = compute_invocation_binding_digest dg call risk facts"
    "ar_invocation_binding_digest q = compute_invocation_binding_digest dg call risk facts"
    by (simp_all add: q' row_request_def new_approval_row_def assms(1) build_request_def)
  have "compute_invocation_binding_digest dg call risk (ar_risk_facts q') =
      compute_invocation_binding_digest dg call risk facts \<longleftrightarrow> sort (ar_risk_facts q') = sort facts"
    using assms(5) by (auto simp: compute_invocation_binding_digest_def)
  then show ?thesis by (simp add: claim_execution_durable_def Let_def fields load_store_iff)
qed

definition facts_digests :: digests where
  "facts_digests = sample_digests\<lparr>payload_digest :=
     \<lambda>p. replicate 64 (if bp_risk_facts p = [''a|b''] then CHR ''1'' else CHR ''0'')\<rparr>"

definition empty_approval_db :: approval_db where
  "empty_approval_db = \<lparr>approval_rows = [], claim_rows = []\<rparr>"

theorem durable_binding_exact_witness:
  "\<exists>q'. ar_risk_facts q' = [''a'', ''b''] \<and>
     claim_execution_durable facts_digests ''r'' ''k'' sample_call
       \<lparr>da_request = Some q', da_has_lease = True, da_claim = Inr ''c''\<rparr> =
     Inr (error_result ''r'' ''k'' AP_APPROVED CLAIM_BINDING_MISMATCH)"
proof -
  let ?q = "build_request facts_digests ''r'' ''a'' sample_call ''t'' None [''a|b''] ''k'' (DT (Some 0) 5)"
  let ?q' = "?q\<lparr>ar_risk_facts := [''a'', ''b'']\<rparr>"
  obtain db' where db': "create_durable empty_approval_db ?q (DT (Some 0) 5) = (Inr ?q, db')"
      "get_durable db' ''k'' = Inr (Some ?q')"
  proof
    let ?db = "set_row empty_approval_db ''k'' (new_approval_row ?q (DT (Some 0) 5))"
    show "create_durable empty_approval_db ?q (DT (Some 0) 5) = (Inr ?q, ?db)" by code_simp
    show "get_durable ?db ''k'' = Inr (Some ?q')" by code_simp
  qed
  have none: "map_of (approval_rows empty_approval_db) ''k'' = None" by (simp add: empty_approval_db_def)
  have "compute_invocation_binding_digest facts_digests sample_call None (ar_risk_facts ?q') \<noteq>
      compute_invocation_binding_digest facts_digests sample_call None [''a|b'']" by code_simp
  moreover have "\<not> plain_facts [''a|b'']" by code_simp
  ultimately have "claim_execution_durable facts_digests ''r'' ''k'' sample_call
       \<lparr>da_request = Some ?q', da_has_lease = True, da_claim = Inr ''c''\<rparr> =
     Inr (error_result ''r'' ''k'' AP_APPROVED CLAIM_BINDING_MISMATCH)"
    using durable_binding_exact [OF refl db'(1) none db'(2), of "''c''"] by simp
  then show ?thesis by (intro exI [of _ ?q']) simp
qed

section \<open>Histories across processes\<close>

text \<open>
  The approval tables together with the run control. Any process may call any operation, with any
  lease it holds or makes up.
\<close>

record durable_system =
  dur_control :: control_system
  dur_db :: approval_db

datatype durable_op =
    ControlOp control_call
  | CreateRow approval_request py_datetime
  | DecideRow string string string approval_decision_value "string option" py_datetime
  | InvalidateRows string string "string \<Rightarrow> py_datetime"
  | ClaimRow run_lease string string int string py_datetime

fun durable_post :: "digests \<Rightarrow> int \<Rightarrow> durable_system \<Rightarrow> durable_op \<Rightarrow> durable_system" where
  "durable_post dg secs s (ControlOp call) = s\<lparr>dur_control := control_post secs (dur_control s) call\<rparr>"
| "durable_post dg secs s (CreateRow q now) = s\<lparr>dur_db := snd (create_durable (dur_db s) q now)\<rparr>"
| "durable_post dg secs s (DecideRow run k binding d actor now) =
     s\<lparr>dur_db := snd (decide_durable dg (cs_db (dur_control s)) (dur_db s) run k binding d actor now)\<rparr>"
| "durable_post dg secs s (InvalidateRows run why clock) =
     s\<lparr>dur_db := snd (invalidate_run (dur_db s) run why clock)\<rparr>"
| "durable_post dg secs s (ClaimRow l k binding db_now claim_id now) =
     s\<lparr>dur_db := snd (claim_durable (cs_db (dur_control s)) (dur_db s) l k binding db_now claim_id now)\<rparr>"

text \<open>The identity of a row never changes, and a row that is not pending does not change at all.\<close>

definition row_kept :: "durable_approval_row \<Rightarrow> durable_approval_row \<Rightarrow> bool" where
  "row_kept r r' \<longleftrightarrow> (row_state r \<noteq> ROW_PENDING \<longrightarrow> r' = r) \<and>
     row_run_id r' = row_run_id r \<and> row_invocation_id r' = row_invocation_id r \<and>
     row_invocation_binding_digest r' = row_invocation_binding_digest r \<and>
     row_risk_facts r' = row_risk_facts r"

definition row_ok :: "durable_approval_row \<Rightarrow> bool" where
  "row_ok r \<longleftrightarrow>
     (row_state r = ROW_APPROVED \<longrightarrow> row_decision r = Some APPROVE \<and> row_decided_at r \<noteq> None) \<and>
     (row_state r = ROW_REJECTED \<longrightarrow> row_decision r = Some REJECT \<and> row_decided_at r \<noteq> None)"

definition claim_ok :: "durable_system \<Rightarrow> durable_execution_claim \<Rightarrow> bool" where
  "claim_ok s c \<longleftrightarrow>
     (\<exists>r. map_of (approval_rows (dur_db s)) (cl_approval_id c) = Some r \<and> row_state r = ROW_APPROVED \<and>
        row_run_id r = cl_run_id c \<and> row_invocation_binding_digest r = cl_binding_digest c) \<and>
     (\<exists>w. map_of (controls (cs_db (dur_control s))) (cl_run_id c) = Some w \<and>
        cl_fencing_token c \<le> rc_fencing_token w)"

definition one_per_invocation :: "(string, durable_approval_row) dict \<Rightarrow> bool" where
  "one_per_invocation d \<longleftrightarrow> (\<forall>j k r r'. map_of d j = Some r \<longrightarrow> map_of d k = Some r' \<longrightarrow>
     row_run_id r = row_run_id r' \<longrightarrow> row_invocation_id r = row_invocation_id r' \<longrightarrow> j = k)"

definition durable_inv :: "durable_system \<Rightarrow> bool" where
  "durable_inv s \<longleftrightarrow> control_inv (dur_control s) \<and> wf_dict (approval_rows (dur_db s)) \<and>
     one_per_invocation (approval_rows (dur_db s)) \<and>
     (\<forall>k r. map_of (approval_rows (dur_db s)) k = Some r \<longrightarrow> row_ok r) \<and>
     distinct (map cl_approval_id (claim_rows (dur_db s))) \<and>
     distinct (map cl_claim_id (claim_rows (dur_db s))) \<and>
     (\<forall>c \<in> set (claim_rows (dur_db s)). claim_ok s c)"

definition rows_kept :: "approval_db \<Rightarrow> approval_db \<Rightarrow> bool" where
  "rows_kept db db' \<longleftrightarrow> (\<forall>k r. map_of (approval_rows db) k = Some r \<longrightarrow>
     (\<exists>r'. map_of (approval_rows db') k = Some r' \<and> row_kept r r'))"

lemma row_kept_refl [simp]: "row_kept r r"
  by (simp add: row_kept_def)

lemma row_kept_trans: "row_kept a b \<Longrightarrow> row_kept b c \<Longrightarrow> row_kept a c"
  by (auto simp: row_kept_def)

lemma rows_kept_refl [simp]: "rows_kept db db"
  by (simp add: rows_kept_def)

lemma rows_kept_trans: "rows_kept a b \<Longrightarrow> rows_kept b c \<Longrightarrow> rows_kept a c"
  unfolding rows_kept_def by (meson row_kept_trans)

lemma rows_of_set_row [simp]: "approval_rows (set_row db k r) = AList.update k r (approval_rows db)"
  "claim_rows (set_row db k r) = claim_rows db"
  by (simp_all add: set_row_def)

lemma rows_kept_set:
  "(\<And>x. map_of (approval_rows db) k = Some x \<Longrightarrow> row_kept x r) \<Longrightarrow> rows_kept db (set_row db k r)"
  by (simp add: rows_kept_def)

text \<open>The rows after an operation: the same rows kept, and at most one new pending row.\<close>

definition rows_step :: "approval_db \<Rightarrow> approval_db \<Rightarrow> bool" where
  "rows_step db db' \<longleftrightarrow> wf_dict (approval_rows db') \<and> rows_kept db db' \<and>
     (\<forall>k r. map_of (approval_rows db') k = Some r \<longrightarrow> row_ok r) \<and>
     one_per_invocation (approval_rows db')"

definition rows_good :: "approval_db \<Rightarrow> bool" where
  "rows_good db \<longleftrightarrow> wf_dict (approval_rows db) \<and> one_per_invocation (approval_rows db) \<and>
     (\<forall>k r. map_of (approval_rows db) k = Some r \<longrightarrow> row_ok r)"

lemma rows_step_refl: "rows_good db \<Longrightarrow> rows_step db db"
  by (simp add: rows_step_def rows_good_def)

lemma rows_step_change:
  assumes "rows_good db" "map_of (approval_rows db) k = Some x" "row_kept x r" "row_ok r"
  shows "rows_step db (set_row db k r)"
  using assms unfolding rows_step_def rows_good_def
  by (intro conjI rows_kept_set)
     (auto simp: one_per_invocation_def row_kept_def split: if_split_asm)

lemma one_per_same_ids:
  assumes "one_per_invocation d"
    and "\<And>k r'. map_of d' k = Some r' \<Longrightarrow> \<exists>r. map_of d k = Some r \<and> row_run_id r = row_run_id r' \<and>
           row_invocation_id r = row_invocation_id r'"
  shows "one_per_invocation d'"
  using assms unfolding one_per_invocation_def by metis

lemma create_step:
  assumes "rows_good db"
  shows "rows_step db (snd (create_durable db q now)) \<and>
    claim_rows (snd (create_durable db q now)) = claim_rows db"
proof (cases "find (\<lambda>(k, r). row_run_id r = ar_run_id q \<and> row_invocation_id r = ar_invocation_id q)
    (approval_rows db)")
  case None
  then have other: False if "map_of (approval_rows db) k = Some r" "row_run_id r = ar_run_id q"
      "row_invocation_id r = ar_invocation_id q" for k r
    using map_of_SomeD [OF that(1)] that(2,3) by (auto simp: find_None_iff)
  let ?r = "new_approval_row q now"
  have new: "row_ok ?r" "row_run_id ?r = ar_run_id q" "row_invocation_id ?r = ar_invocation_id q"
    by (simp_all add: new_approval_row_def row_ok_def)
  show ?thesis
  proof (cases "map_of (approval_rows db) (ar_approval_id q)")
    case absent: None
    have "one_per_invocation (approval_rows (set_row db (ar_approval_id q) ?r))"
      using assms by (auto simp: one_per_invocation_def rows_good_def new dest: other split: if_split_asm)
    moreover have "rows_kept db (set_row db (ar_approval_id q) ?r)"
      by (rule rows_kept_set) (simp add: absent)
    ultimately have "rows_step db (set_row db (ar_approval_id q) ?r)"
      using assms new(1) by (auto simp: rows_step_def rows_good_def split: if_split_asm)
    with None absent show ?thesis by (simp add: create_durable_def)
  next
    case (Some x)
    with None assms show ?thesis by (simp add: create_durable_def rows_step_refl)
  qed
next
  case (Some p)
  with assms show ?thesis by (cases p) (simp add: create_durable_def rows_step_refl)
qed

lemma decide_step:
  assumes "rows_good db"
  shows "rows_step db (snd (decide_durable dg ctl db run k binding d actor now)) \<and>
    claim_rows (snd (decide_durable dg ctl db run k binding d actor now)) = claim_rows db"
proof (cases "map_of (approval_rows db) k")
  case (Some x)
  let ?db = "snd (decide_durable dg ctl db run k binding d actor now)"
  have "?db = db \<or> (\<exists>r. ?db = set_row db k r \<and> row_kept x r \<and> row_ok r)"
    using Some
    by (cases d) (auto simp: decide_durable_def Let_def row_kept_def row_ok_def invalidate_locked_def)
  with assms Some show ?thesis by (auto intro: rows_step_refl rows_step_change)
qed (use assms in \<open>simp add: decide_durable_def rows_step_refl\<close>)

lemma map_of_map_value: "map_of (map (\<lambda>(k, r). (k, f k r)) d) k = map_option (f k) (map_of d k)"
  by (induction d) auto

lemma invalidate_step:
  assumes "rows_good db"
  shows "rows_step db (snd (invalidate_run db run why clock)) \<and>
    claim_rows (snd (invalidate_run db run why clock)) = claim_rows db"
proof -
  let ?f = "\<lambda>k r. if invalidates run r then invalidate_locked r why (clock k) else r"
  let ?db = "db\<lparr>approval_rows := map (\<lambda>(k, r). (k, ?f k r)) (approval_rows db)\<rparr>"
  have kept: "row_kept r (?f k r)" and ok: "row_ok r \<Longrightarrow> row_ok (?f k r)" for k r
    by (simp_all add: row_kept_def row_ok_def invalidate_locked_def invalidates_def)
  have ids: "row_run_id (?f k r) = row_run_id r" "row_invocation_id (?f k r) = row_invocation_id r" for k r
    using kept [of r k] by (simp_all add: row_kept_def)
  have keys: "map (fst \<circ> (\<lambda>(k, r). (k, ?f k r))) (approval_rows db) = map fst (approval_rows db)" by auto
  have "one_per_invocation (approval_rows ?db)"
    using assms by (auto simp: rows_good_def map_of_map_value ids simp del: if_split elim!: one_per_same_ids)
  moreover have "rows_kept db ?db" using kept by (simp add: rows_kept_def map_of_map_value)
  moreover have "row_ok r'" if "map_of (approval_rows ?db) k = Some r'" for k r'
    using assms that ok by (auto simp: rows_good_def map_of_map_value)
  ultimately have "rows_step db ?db"
    using assms by (simp add: rows_step_def rows_good_def keys)
  with assms show ?thesis by (simp add: invalidate_run_def rows_step_refl)
qed

lemma claim_step:
  assumes "claim_durable ctl db l k binding db_now claim_id now = (res, db')"
  shows "db' = db \<or> (\<exists>c r w. db' = db\<lparr>claim_rows := claim_rows db @ [c]\<rparr> \<and>
      cl_claim_id c \<notin> cl_claim_id ` set (claim_rows db) \<and> cl_approval_id c \<notin> cl_approval_id ` set (claim_rows db) \<and>
      map_of (approval_rows db) (cl_approval_id c) = Some r \<and> row_state r = ROW_APPROVED \<and>
      row_run_id r = cl_run_id c \<and> row_invocation_binding_digest r = cl_binding_digest c \<and>
      map_of (controls ctl) (cl_run_id c) = Some w \<and> cl_fencing_token c = rc_fencing_token w)"
proof -
  let ?c = "\<lparr>cl_claim_id = claim_id, cl_approval_id = k, cl_run_id = lease_run_id l, cl_binding_digest = binding,
    cl_owner_id = lease_owner_id l, cl_fencing_token = lease_fencing_token l, cl_created_at = now\<rparr>"
  have "db' = db \<or> (\<exists>r w. db' = db\<lparr>claim_rows := claim_rows db @ [?c]\<rparr> \<and>
      claim_id \<notin> cl_claim_id ` set (claim_rows db) \<and> k \<notin> cl_approval_id ` set (claim_rows db) \<and>
      map_of (approval_rows db) k = Some r \<and> row_state r = ROW_APPROVED \<and>
      row_run_id r = lease_run_id l \<and> row_invocation_binding_digest r = binding \<and>
      map_of (controls ctl) (lease_run_id l) = Some w \<and> lease_fencing_token l = rc_fencing_token w)"
    using assms
    by (auto simp: claim_durable_def Let_def claim_of_def find_None_iff dest!: current_rowD
        split: option.split_asm if_split_asm)
  then show ?thesis by (rule disj_forward) (assumption, intro exI [of _ ?c], simp)
qed

lemma rows_kept_final:
  assumes "rows_kept db db'" "map_of (approval_rows db) k = Some r" "row_state r \<noteq> ROW_PENDING"
  shows "map_of (approval_rows db') k = Some r"
proof -
  obtain r' where "map_of (approval_rows db') k = Some r'" "row_kept r r'"
    using assms(1,2) unfolding rows_kept_def by blast
  with assms(3) show ?thesis by (simp add: row_kept_def)
qed

lemma claim_ok_mono:
  assumes "claim_ok s c" "rows_kept (dur_db s) (dur_db t)"
    and "db_evolves (cs_db (dur_control s)) (cs_db (dur_control t))"
  shows "claim_ok t c"
proof -
  obtain r w where r: "map_of (approval_rows (dur_db s)) (cl_approval_id c) = Some r" "row_state r = ROW_APPROVED"
      "row_run_id r = cl_run_id c" "row_invocation_binding_digest r = cl_binding_digest c"
    and w: "map_of (controls (cs_db (dur_control s))) (cl_run_id c) = Some w"
      "cl_fencing_token c \<le> rc_fencing_token w"
    using assms(1) by (auto simp: claim_ok_def)
  from rows_kept_final [OF assms(2) r(1)] r(2)
  have "map_of (approval_rows (dur_db t)) (cl_approval_id c) = Some r" by simp
  moreover obtain w' where "map_of (controls (cs_db (dur_control t))) (cl_run_id c) = Some w'" "row_evolves w w'"
    using assms(3) w(1) by (auto simp: db_evolves_def)
  ultimately show ?thesis using r w(2) by (auto simp: claim_ok_def row_evolves_def)
qed

lemma durable_inv_rows:
  assumes "durable_inv s" "rows_step (dur_db s) db'" "claim_rows db' = claim_rows (dur_db s)"
  shows "durable_inv (s\<lparr>dur_db := db'\<rparr>)"
  using assms claim_ok_mono [of s _ "s\<lparr>dur_db := db'\<rparr>"]
  by (simp add: durable_inv_def rows_step_def)

lemma durable_inv_good: "durable_inv s \<Longrightarrow> rows_good (dur_db s)"
  by (simp add: durable_inv_def rows_good_def)

definition durable_rel :: "durable_system \<Rightarrow> durable_system \<Rightarrow> bool" where
  "durable_rel s t \<longleftrightarrow> rows_kept (dur_db s) (dur_db t) \<and>
     set (claim_rows (dur_db s)) \<subseteq> set (claim_rows (dur_db t)) \<and>
     db_evolves (cs_db (dur_control s)) (cs_db (dur_control t))"

lemma durable_post_step:
  assumes "durable_inv s"
  shows "durable_inv (durable_post dg secs s op) \<and> durable_rel s (durable_post dg secs s op)"
proof (cases op)
  case (ControlOp call)
  have c: "control_inv (dur_control s)" using assms by (simp add: durable_inv_def)
  have ev: "db_evolves (cs_db (dur_control s)) (cs_db (control_post secs (dur_control s) call))"
    using control_machine.post_rel [OF c] by blast
  have "control_inv (control_post secs (dur_control s) call)" by (rule control_machine.post_inv [OF c])
  with assms ev claim_ok_mono [of s _ "durable_post dg secs s op"] ControlOp show ?thesis
    by (simp add: durable_inv_def durable_rel_def)
next
  case (CreateRow q now)
  with create_step [OF durable_inv_good [OF assms], of q now] durable_inv_rows [OF assms]
  show ?thesis by (simp add: durable_rel_def rows_step_def)
next
  case (DecideRow run k binding d actor now)
  with decide_step [OF durable_inv_good [OF assms], of dg _ run k binding d actor now] durable_inv_rows [OF assms]
  show ?thesis by (simp add: durable_rel_def rows_step_def)
next
  case (InvalidateRows run why clock)
  with invalidate_step [OF durable_inv_good [OF assms], of run why clock] durable_inv_rows [OF assms]
  show ?thesis by (simp add: durable_rel_def rows_step_def)
next
  case (ClaimRow l k binding db_now claim_id now)
  obtain res db' where q: "claim_durable (cs_db (dur_control s)) (dur_db s) l k binding db_now claim_id now = (res, db')"
    by fastforce
  from claim_step [OF q] show ?thesis
  proof
    assume "db' = dur_db s"
    with q ClaimRow assms show ?thesis by (simp add: durable_rel_def)
  next
    assume "\<exists>c r w. db' = (dur_db s)\<lparr>claim_rows := claim_rows (dur_db s) @ [c]\<rparr> \<and>
      cl_claim_id c \<notin> cl_claim_id ` set (claim_rows (dur_db s)) \<and>
      cl_approval_id c \<notin> cl_approval_id ` set (claim_rows (dur_db s)) \<and>
      map_of (approval_rows (dur_db s)) (cl_approval_id c) = Some r \<and> row_state r = ROW_APPROVED \<and>
      row_run_id r = cl_run_id c \<and> row_invocation_binding_digest r = cl_binding_digest c \<and>
      map_of (controls (cs_db (dur_control s))) (cl_run_id c) = Some w \<and> cl_fencing_token c = rc_fencing_token w"
    then obtain c where db': "db' = (dur_db s)\<lparr>claim_rows := claim_rows (dur_db s) @ [c]\<rparr>"
      and fresh: "cl_claim_id c \<notin> cl_claim_id ` set (claim_rows (dur_db s))"
        "cl_approval_id c \<notin> cl_approval_id ` set (claim_rows (dur_db s))"
      and c: "claim_ok s c" by (auto simp: claim_ok_def)
    have ok: "claim_ok (s\<lparr>dur_db := db'\<rparr>) x \<longleftrightarrow> claim_ok s x" for x by (simp add: claim_ok_def db')
    have "durable_inv (s\<lparr>dur_db := db'\<rparr>)"
      using assms c fresh unfolding durable_inv_def ok by (simp add: db')
    with q ClaimRow show ?thesis by (auto simp: durable_rel_def rows_kept_def db')
  qed
qed

interpretation durable_machine: evolving_machine "durable_post dg secs" durable_inv durable_rel for dg secs
proof
  show "durable_rel s s" for s by (simp add: durable_rel_def)
  show "durable_rel s u" if "durable_rel s t" "durable_rel t u" for s t u
    using that by (auto simp: durable_rel_def intro: rows_kept_trans db_evolves_trans)
qed (use durable_post_step in blast)+

definition empty_durable :: durable_system where
  "empty_durable = \<lparr>dur_control = empty_system, dur_db = empty_approval_db\<rparr>"

lemma empty_durable_inv: "durable_inv empty_durable"
  using empty_system_inv
  by (simp add: durable_inv_def empty_durable_def empty_approval_db_def one_per_invocation_def)

text \<open>
  C1. A tool invocation is executed at most once, across all processes and restarts. After any
  interleaving of run control calls, approval requests, decisions, invalidations and execution claims:
  an invocation of a Run has at most one approval; an approval has at most one execution claim; a
  claimed approval was decided APPROVE, with the Run and the binding of the claim, and the claim
  carries a fencing token the Run has reached. Whatever happens later, the claims and every
  decided or invalidated approval stay exactly as they are.\<close>

theorem durable_execution_once:
  assumes "s = after_all (durable_post dg secs) empty_durable ops" "t = after_all (durable_post dg secs) s later"
  shows "one_per_invocation (approval_rows (dur_db s)) \<and>
    distinct (map cl_approval_id (claim_rows (dur_db s))) \<and>
    (\<forall>c \<in> set (claim_rows (dur_db s)). c \<in> set (claim_rows (dur_db t)) \<and>
       (\<exists>r. map_of (approval_rows (dur_db s)) (cl_approval_id c) = Some r \<and>
          row_state r = ROW_APPROVED \<and> row_decision r = Some APPROVE \<and>
          row_run_id r = cl_run_id c \<and> row_invocation_binding_digest r = cl_binding_digest c) \<and>
       (\<exists>w. map_of (controls (cs_db (dur_control s))) (cl_run_id c) = Some w \<and>
          cl_fencing_token c \<le> rc_fencing_token w)) \<and>
    (\<forall>k r. map_of (approval_rows (dur_db s)) k = Some r \<and> row_state r \<noteq> ROW_PENDING \<longrightarrow>
       map_of (approval_rows (dur_db t)) k = Some r)"
proof -
  have s: "durable_inv s" unfolding assms(1) by (rule durable_machine.history_inv [OF empty_durable_inv])
  have rel: "durable_rel s t" unfolding assms(2) by (rule durable_machine.history_rel [OF s])
  have "map_of (approval_rows (dur_db t)) k = Some r"
    if "map_of (approval_rows (dur_db s)) k = Some r" "row_state r \<noteq> ROW_PENDING" for k r
    using rel that rows_kept_final by (auto simp: durable_rel_def)
  moreover have "\<exists>r. map_of (approval_rows (dur_db s)) (cl_approval_id c) = Some r \<and>
          row_state r = ROW_APPROVED \<and> row_decision r = Some APPROVE \<and>
          row_run_id r = cl_run_id c \<and> row_invocation_binding_digest r = cl_binding_digest c"
    if "c \<in> set (claim_rows (dur_db s))" for c
    using s that by (force simp: durable_inv_def claim_ok_def row_ok_def)
  moreover have "\<exists>w. map_of (controls (cs_db (dur_control s))) (cl_run_id c) = Some w \<and>
          cl_fencing_token c \<le> rc_fencing_token w" if "c \<in> set (claim_rows (dur_db s))" for c
    using s that by (auto simp: durable_inv_def claim_ok_def)
  ultimately show ?thesis using s rel by (simp add: durable_inv_def durable_rel_def) blast
qed

text \<open>A Run is claimed, an approval created, decided and claimed; a second decision and claim follow.\<close>

definition sample_request :: approval_request where
  "sample_request = build_request sample_digests ''r'' ''a'' sample_call ''t'' None [] ''k'' (DT (Some 0) 5)"

definition sample_lease :: run_lease where
  "sample_lease = \<lparr>lease_run_id = ''r'', lease_owner_id = ''w'', lease_until = 30, lease_fencing_token = 1,
     lease_version = 1\<rparr>"

definition sample_durable_ops :: "durable_op list" where
  "sample_durable_ops =
     [ControlOp (Claim ''r'' ''w'' 0), CreateRow sample_request (DT (Some 0) 5),
      DecideRow ''r'' ''k'' (replicate 64 CHR ''1'') APPROVE None (DT (Some 0) 6),
      ClaimRow sample_lease ''k'' (replicate 64 CHR ''1'') 10 ''c1'' (DT (Some 0) 7),
      DecideRow ''r'' ''k'' (replicate 64 CHR ''1'') REJECT None (DT (Some 0) 8),
      ClaimRow sample_lease ''k'' (replicate 64 CHR ''1'') 11 ''c2'' (DT (Some 0) 9)]"

lemma sample_durable_claims:
  "map cl_claim_id (claim_rows (dur_db (after_all (durable_post sample_digests 30) empty_durable sample_durable_ops)))
     = [''c1'']"
  by code_simp

theorem durable_execution_once_witness:
  "let s = after_all (durable_post sample_digests 30) empty_durable sample_durable_ops
   in \<exists>c r. claim_rows (dur_db s) = [c] \<and> cl_claim_id c = ''c1'' \<and>
        map_of (approval_rows (dur_db s)) (cl_approval_id c) = Some r \<and> row_decision r = Some APPROVE"
proof -
  let ?s = "after_all (durable_post sample_digests 30) empty_durable sample_durable_ops"
  obtain c where "claim_rows (dur_db ?s) = [c]" "cl_claim_id c = ''c1''"
    using sample_durable_claims by (auto simp: map_eq_Cons_conv)
  with durable_execution_once [OF refl refl, of sample_digests 30 sample_durable_ops "[]"]
  show ?thesis unfolding Let_def by (intro exI [of _ c]) auto
qed

end
