(* ===== verification/Spec2Isabelle.thy ===== *)
theory Spec2Isabelle
  imports Runtime_Prelude Cancellation Budget Agent_State State_Machine Planning Plan_Graph
    Claim_Gate Scheduler Circuit_Breaker Py_Float Model_Selection Model_Routing Retry Run_Control
    Approval Durable_Approval
begin

text \<open>
  \<^bold>\<open>LocalAgent: the execution runtime.\<close>

  LocalAgent answers a request by a \<^emph>\<open>Run\<close>: a plan of steps is validated, its steps are
  scheduled under a budget, each step may call a model or a tool, and the state of the Run is kept
  by a state machine. The package \<^verbatim>\<open>core/runtime\<close> holds this logic. This development models the
  parts that decide what may happen: which transitions a Run and its steps may take, which steps may
  start, what may be spent, which model may be used, when a call is repeated, who owns a Run,
  and which tool call may be executed.

  \<^bold>\<open>How the code is modelled.\<close> A method that changes an object returns the changed
  state together with its result; an exception is a value of an error type, and the state returned with it is
  the state the object has after the exception. Objects guarded by a lock are modelled with one step
  per critical section, database services with one step per transaction. Clock readings, fresh ids,
  random draws and the answers of code outside the modelled files are arguments. Python integers are
  \<open>int\<close>, dictionaries are association lists (their order is observable), timestamps are an
  offset and an instant, and strings are byte strings in UTF-8, whose order is that of the code points.

  \<^bold>\<open>Theories and source files\<close> (under \<^verbatim>\<open>src/core/runtime\<close>):

  \<^item> \<open>Runtime_Prelude\<close>: dictionaries, first-error lists, timestamps and text helpers, and the
    contracts of components as locales: \<open>invariant_machine\<close>, \<open>absorbing_machine\<close>,
    \<open>evolving_machine\<close>, \<open>monotone_machine\<close> and \<open>refining_machine\<close>. A component gives its
    transition function and its invariant, discharges the laws in an interpretation, and receives the facts
    about all histories of calls.
  \<^item> \<open>Cancellation\<close>: \<^verbatim>\<open>cancellation.py\<close>, \<^verbatim>\<open>timeout.py\<close> and the deadline of
    \<^verbatim>\<open>context.py\<close>. The first cancellation wins; a restored deadline grants no fresh time.
  \<^item> \<open>Budget\<close>: \<^verbatim>\<open>budget.py\<close>. The ledger never exceeds a limit, the feasibility policy
    answers exactly what a reservation would, reservations can be undone, a ledger rebuilt
    from durable operations is conservative.
  \<^item> \<open>Agent_State\<close> and \<open>State_Machine\<close>: \<^verbatim>\<open>state.py\<close> and \<^verbatim>\<open>state_machine.py\<close>.
    Serialisation round trip; the exact guards and effects of every Run and Step event; atomicity;
    consistency of the state over all histories; final states are final; live Runs can be ended.
  \<^item> \<open>Planning\<close> and \<open>Plan_Graph\<close>: \<^verbatim>\<open>planning.py\<close> and \<^verbatim>\<open>plan_graph.py\<close>.
    The graph validator accepts exactly the well-formed acyclic plans; its order is the greedy
    topological order; a reported cycle is a cycle.
  \<^item> \<open>Claim_Gate\<close> and \<open>Scheduler\<close>: \<^verbatim>\<open>claim_gate.py\<close> and \<^verbatim>\<open>scheduler.py\<close>.
    The scheduler composes the gate, the graph, the state machine and the ledger: only steps whose
    dependencies succeeded are started, never more than the parallelism allows, every free slot is used,
    blocked steps are propagated completely, and the budget is settled on every path.
  \<^item> \<open>Circuit_Breaker\<close>: \<^verbatim>\<open>circuit_breaker.py\<close>. Probe limit, tripping and recovery.
  \<^item> \<open>Py_Float\<close>: multiplication and division of binary64 numbers with round to nearest, ties
    to even, as the context windows of model selection use them.
  \<^item> \<open>Model_Selection\<close> and \<open>Model_Routing\<close>: \<^verbatim>\<open>model_selection.py\<close> and
    \<^verbatim>\<open>model_routing.py\<close>. A selected profile satisfies every requirement and is affordable; the
    candidate chain is exactly the admissible profiles.
  \<^item> \<open>Retry\<close>: \<^verbatim>\<open>retry.py\<close>. The delays are the capped exponential backoff; the loop ends.
  \<^item> \<open>Run_Control\<close>: \<^verbatim>\<open>run_control.py\<close>. Leases with fencing tokens over the rows of
    \<^verbatim>\<open>core/persistence/models.py\<close>: a stale owner is fenced off, a terminal write happens once,
    and the service refines an abstract fenced lock.
  \<^item> \<open>Approval\<close>: \<^verbatim>\<open>approval.py\<close>. Approvals in one process, through the state machine: nothing
    is executed without an approval, nothing twice, and the records are well typed.
  \<^item> \<open>Durable_Approval\<close>: \<^verbatim>\<open>durable_approval.py\<close>. The same promise across processes, on top
    of the run control; the binding of an approval survives the database exactly when its risk facts are plain.

  \<^bold>\<open>Loops and bounds.\<close> The Kahn loop, the cycle search and the propagation of blocked steps
  are functions with a termination measure (open dependencies, unvisited steps, pending steps). The
  retry loop is a \<open>partial_function\<close> to \<open>option\<close>, and that it returns within the configured
  number of attempts is a theorem. The waiting loop of an approval is modelled by one round, since
  its end depends on others. \<open>Py_Float\<close> covers the normal range, which the context windows do not
  leave. Budgets, tokens and versions are unbounded integers, as in Python; the database columns are
  64 bits wide, which no history reaches.

  \<^bold>\<open>What the theorems do not cover.\<close> Threads and the event loop appear only through the order
  of critical sections. The digest functions are parameters; where a theorem needs that two payloads do not
  collide it says so.

  \<^bold>\<open>Not modelled.\<close> The coordination of a Run (\<^verbatim>\<open>run_coordinator.py\<close>,
  \<^verbatim>\<open>runtime_factory.py\<close>), parallel execution and step completion, admission and registry, checkpoints
  and recovery, and the registry, idempotency and recovery of tools have logic of their own and are
  to follow. Model and tool execution, retrieval, memory, prompts, the Journal, persistence,
  observability, the server and the user interface call providers, databases or the network and are
  not modelled; what the modelled code needs of them is an argument.
\<close>

end
